(* ===== verification/Net_Prelude.thy ===== *)
theory Net_Prelude
  imports Complex_Main "HOL-Library.Word" "HOL-Library.Monad_Syntax"
begin

text \<open>
  Shared vocabulary of the netscan development: the machine types of
  \<^verbatim>\<open><cstdint>\<close>, the values a C++ call can end with, signed 64-bit arithmetic with its
  overflow made visible, the nanosecond constants of \<^verbatim>\<open>include/utils.hpp\<close>, and the
  generic list facts every component proof uses.
\<close>

unbundle bit_operations_syntax

section \<open>Machine types\<close>

type_synonym u8 = "8 word"
type_synonym u16 = "16 word"
type_synonym u32 = "32 word"
type_synonym u64 = "64 word"

text \<open>
  A \<^verbatim>\<open>size_t\<close> is a \<open>nat\<close> below \<open>2 ^ 64\<close>. Additions and products that the program does not
  guard, and every unguarded subtraction, go through the wrapping operations below.
\<close>

type_synonym size_t = nat

definition size_add :: "size_t \<Rightarrow> size_t \<Rightarrow> size_t" where
  "size_add a b = (a + b) mod 2 ^ 64"

definition size_mul :: "size_t \<Rightarrow> size_t \<Rightarrow> size_t" where
  "size_mul a b = (a * b) mod 2 ^ 64"

definition size_sub :: "size_t \<Rightarrow> size_t \<Rightarrow> size_t" where
  "size_sub a b = (if b \<le> a then a - b else (a + 2 ^ 64) - b)"

named_theorems size_simps \<open>wrapping size arithmetic where nothing wraps\<close>

lemma size_add_exact [size_simps]: "a + b < 2 ^ 64 \<Longrightarrow> size_add a b = a + b"
  by (simp add: size_add_def)

lemma size_mul_exact [size_simps]: "a * b < 2 ^ 64 \<Longrightarrow> size_mul a b = a * b"
  by (simp add: size_mul_def)

lemma size_sub_exact [size_simps]: "b \<le> a \<Longrightarrow> size_sub a b = a - b"
  by (simp add: size_sub_def)

lemma unat_lt_width: "unat (x :: 'a::len word) < 2 ^ LENGTH('a)"
  by (rule unsigned_less)

lemmas unat_u8_lt = unat_lt_width [where 'a = 8, simplified]
  and unat_u16_lt = unat_lt_width [where 'a = 16, simplified]
  and unat_u32_lt = unat_lt_width [where 'a = 32, simplified]
  and unat_u64_lt = unat_lt_width [where 'a = 64, simplified]

lemma uint_u32_lt: "uint (x :: u32) < 4294967296" and uint_u32_ge: "0 \<le> uint (x :: u32)"
  using uint_lt2p [of x] by simp_all

lemma word_eq_of_nat: "unat (w :: 'a::len word) = n \<Longrightarrow> w = word_of_nat n"
  by auto

text \<open>Masks: the high bits of a word, as arithmetic.\<close>

lemma not_mask_shift: "push_bit k (NOT 0 :: 'a::len word) = NOT (mask k)"
  by (simp add: push_bit_minus_one_eq_not_mask)

lemma not_shift_plus_1: "NOT (push_bit k (NOT 0 :: 'a::len word)) + 1 = 2 ^ k"
  by (simp add: not_mask_shift mask_eq_exp_minus_1)

lemma unat_high_bits:
  fixes x :: "'a::len word"
  shows "unat (x AND NOT (mask k)) = unat x - unat x mod 2 ^ k"
proof -
  have t: "unat (take_bit k x) = unat x mod 2 ^ k"
    unfolding unsigned_take_bit_eq by (rule take_bit_eq_mod)
  have "push_bit k (drop_bit k x) = x AND NOT (mask k)"
    by (rule bit_word_eqI) (auto simp: bit_simps)
  then have "x AND NOT (mask k) = x - take_bit k x"
    by (metis add_diff_cancel_right' bits_ident)
  moreover have "take_bit k x \<le> x"
    by (simp only: word_le_nat_alt t mod_less_eq_dividend)
  ultimately show ?thesis by (simp only: unat_sub t)
qed

named_theorems eval_simps \<open>equations that evaluate the model on concrete input\<close>

section \<open>How a call ends\<close>

text \<open>
  \<open>System_error e what\<close> is \<^verbatim>\<open>throw std::system_error(e, ..., what)\<close>, \<open>Length_error\<close> the exception of
  a \<^verbatim>\<open>std::vector\<close> asked for an impossible size. The other two are undefined behaviour of C++17
  that the sources can reach: signed overflow, and an access outside a buffer. A model function that can end so returns a sum, the fault on the left.
\<close>

datatype fault =
    System_error int string
  | Length_error
  | Signed_overflow
  | Out_of_bounds

text \<open>
  A call that may also run for ever has its outcome under an option: \<open>None\<close> is
  \<open>does not return\<close>. \<open>seq m f\<close> runs \<open>f\<close> on the value of \<open>m\<close>; a fault of \<open>m\<close> passes through.
\<close>

type_synonym 'a outcome = "(fault + 'a) option"

definition seq :: "'a outcome \<Rightarrow> ('a \<Rightarrow> 'b outcome) \<Rightarrow> 'b outcome" where
  "seq m f = (case m of None \<Rightarrow> None | Some (Inl e) \<Rightarrow> Some (Inl e) | Some (Inr a) \<Rightarrow> f a)"

lemma seq_simps [simp]:
  "seq None f = None"
  "seq (Some (Inl e)) f = Some (Inl e)"
  "seq (Some (Inr a)) f = f a"
  by (simp_all add: seq_def)

lemma seq_InrE:
  assumes "seq m f = Some (Inr b)"
  obtains a where "m = Some (Inr a)" "f a = Some (Inr b)"
  using assms by (auto simp: seq_def split: option.splits sum.splits)

lemma seq_cong [fundef_cong]:
  "m = m' \<Longrightarrow> (\<And>a. m' = Some (Inr a) \<Longrightarrow> f a = f' a) \<Longrightarrow> seq m f = seq m' f'"
  by (auto simp: seq_def split: option.splits sum.splits)

lemma seq_split:
  "P (seq m f) \<longleftrightarrow>
    (m = None \<longrightarrow> P None) \<and> (\<forall>e. m = Some (Inl e) \<longrightarrow> P (Some (Inl e))) \<and>
    (\<forall>a. m = Some (Inr a) \<longrightarrow> P (f a))"
  by (auto simp: seq_def split: option.splits sum.splits)

lemma seq_conv_bind:
  "seq m f = Option.bind m (\<lambda>r. case r of Inl e \<Rightarrow> Some (Inl e) | Inr a \<Rightarrow> f a)"
  by (cases m) (auto simp: seq_def)

lemma seq_mono [partial_function_mono]:
  assumes mono: "\<And>y. mono_option (\<lambda>f. C y f)"
  shows "mono_option (\<lambda>f. seq m (\<lambda>y. C y f))"
proof -
  have "mono_option (\<lambda>f. case r of Inl e \<Rightarrow> Some (Inl e) | Inr a \<Rightarrow> C a f)" for r
    using mono by (cases r) (auto intro: option.const_mono)
  then show ?thesis
    unfolding seq_conv_bind by (rule bind_mono [OF option.const_mono])
qed

text \<open>
  \<open>on_return P r\<close> is what a partial-correctness lemma states of a call: if it came back with a
  value, the value satisfies \<open>P\<close>. Totality is always stated apart.
\<close>

definition on_return :: "('a \<Rightarrow> bool) \<Rightarrow> fault + 'a \<Rightarrow> bool" where
  "on_return P r = (case r of Inl e \<Rightarrow> True | Inr a \<Rightarrow> P a)"

lemma on_return_simps [simp]: "on_return P (Inl e)" "on_return P (Inr a) = P a"
  by (simp_all add: on_return_def)

lemma on_return_mono: "on_return P r \<Longrightarrow> (\<And>a. P a \<Longrightarrow> Q a) \<Longrightarrow> on_return Q r"
  by (cases r) auto

lemma on_return_seq:
  assumes "seq m f = Some r" and "\<And>q. m = Some q \<Longrightarrow> on_return P q"
    and "\<And>a r. P a \<Longrightarrow> f a = Some r \<Longrightarrow> on_return Q r"
  shows "on_return Q r"
proof (cases m)
  case (Some q)
  with assms show ?thesis by (cases q) auto
qed (use assms in simp)

section \<open>Signed 64-bit arithmetic\<close>

text \<open>
  \<^verbatim>\<open>int64_t\<close> arithmetic is exact or undefined: \<open>chk64\<close> is the exact value when it fits.
\<close>

definition fits64 :: "int \<Rightarrow> bool" where
  "fits64 x \<longleftrightarrow> - (2 ^ 63) \<le> x \<and> x < 2 ^ 63"

definition chk64 :: "int \<Rightarrow> int option" where
  "chk64 x = (if fits64 x then Some x else None)"

lemma chk64_Some_iff [simp]: "chk64 x = Some y \<longleftrightarrow> fits64 x \<and> y = x"
  by (auto simp: chk64_def)

lemma chk64_fits: "fits64 x \<Longrightarrow> chk64 x = Some x"
  by simp

section \<open>Time\<close>

record timespec =
  tv_sec :: int
  tv_nsec :: int

definition NANOSECONDS_PER_SECOND_LL :: int where
  "NANOSECONDS_PER_SECOND_LL = 1000000000"

definition NANOSECONDS_PER_MILLISECOND_LL :: int where
  "NANOSECONDS_PER_MILLISECOND_LL = 1000000"

section \<open>List facts\<close>

lemma length_4: "length xs = 4 \<Longrightarrow> \<exists>a b c d. xs = [a, b, c, d]"
  by (auto simp: length_Suc_conv eval_nat_numeral)

lemma mod_shift_inj:
  fixes i j m n :: nat
  assumes "i < n" and "j < n" and "(m + i) mod n = (m + j) mod n"
  shows "i = j"
proof -
  have le: "a = b" if "a \<le> b" "b < n" "(m + a) mod n = (m + b) mod n" for a b
  proof -
    have "n dvd (m + b) - (m + a)" using mod_eq_dvd_iff_nat [of "m + a" "m + b" n] that by simp
    then have "b - a = 0" using that(2) by (metis diff_add_inverse2 diff_cancel2 diff_less_mono2 add.commute
          dvd_imp_le less_imp_diff_less linorder_not_le not_gr_zero)
    with that(1) show ?thesis by simp
  qed
  from le [of i j] le [of j i] assms show ?thesis by (cases "i \<le> j") simp_all
qed

lemma length_filter_upt: "length (filter P [0..<n]) = card {i. i < n \<and> P i}"
  by (simp add: length_filter_conv_card) (rule arg_cong [where f = card], auto)

end
