(* ===== verification/Bytes.thy ===== *)
theory Bytes
  imports Net_Prelude
begin

text \<open>
  Bytes in memory. The scanners build and read ICMP packets, and the neighbour-table reader
  reads netlink messages, with \<^verbatim>\<open>memcpy\<close> between a byte buffer and a struct. This theory has
  the two byte orders (the host is little-endian, as both CI targets of the repository are;
  the network is big-endian), the \<^verbatim>\<open>htonl\<close> family, checked reads and writes of a buffer, and
  the interface \<open>codec\<close>: a fixed-size encoding that can be read back. The packet formats are
  instances of it, pairs of codecs are codecs again.
\<close>

section \<open>Byte order\<close>

primrec le_bytes :: "nat \<Rightarrow> nat \<Rightarrow> u8 list" where
  "le_bytes 0 x = []"
| "le_bytes (Suc n) x = word_of_nat (x mod 256) # le_bytes n (x div 256)"

primrec le_val :: "u8 list \<Rightarrow> nat" where
  "le_val [] = 0"
| "le_val (b # bs) = unat b + 256 * le_val bs"

lemma length_le_bytes [simp]: "length (le_bytes n x) = n"
  by (induction n arbitrary: x) auto

lemma le_bytes_numeral [eval_simps]:
  "le_bytes (numeral k) x = word_of_nat (x mod 256) # le_bytes (pred_numeral k) (x div 256)"
  by (subst numeral_eq_Suc) (rule le_bytes.simps(2))

lemma unat_byte [simp]: "unat (word_of_nat (x mod 256) :: u8) = x mod 256"
  by (simp add: unat_of_nat)

lemma le_val_bytes: "le_val (le_bytes n x) = x mod 256 ^ n"
proof (induction n arbitrary: x)
  case 0
  then show ?case by simp
next
  case (Suc n)
  have "x mod 256 + 256 * (x div 256 mod 256 ^ n) = x mod (256 * 256 ^ n)"
    by (metis add.commute mod_mult2_eq)
  with Suc show ?case by (simp add: mult.commute)
qed

lemma le_val_bound: "le_val bs < 256 ^ length bs"
proof (induction bs)
  case Nil
  then show ?case by simp
next
  case (Cons b bs)
  have "unat b < 256" using unat_u8_lt [of b] by simp
  moreover have "256 * le_val bs + 256 \<le> 256 * 256 ^ length bs"
    using Cons.IH by simp
  ultimately show ?case by simp
qed

lemma le_bytes_val: "le_bytes (length bs) (le_val bs) = bs"
proof (induction bs)
  case Nil
  then show ?case by simp
next
  case (Cons b bs)
  have b: "unat b < 256" using unat_u8_lt [of b] by simp
  then have "(unat b + 256 * le_val bs) mod 256 = unat b"
    and "(unat b + 256 * le_val bs) div 256 = le_val bs" by simp_all
  then show ?case using Cons.IH by simp
qed

section \<open>Host and network order\<close>

definition htonl :: "u32 \<Rightarrow> u32" where
  "htonl x = word_of_nat (le_val (rev (le_bytes 4 (unat x))))"

definition ntohl :: "u32 \<Rightarrow> u32" where
  "ntohl x = word_of_nat (le_val (rev (le_bytes 4 (unat x))))"

definition htons :: "u16 \<Rightarrow> u16" where
  "htons x = word_of_nat (le_val (rev (le_bytes 2 (unat x))))"

definition ntohs :: "u16 \<Rightarrow> u16" where
  "ntohs x = word_of_nat (le_val (rev (le_bytes 2 (unat x))))"

lemma le_bytes_rev_val:
  "length bs = n \<Longrightarrow> le_bytes n (le_val (rev bs)) = rev bs"
  using le_bytes_val [of "rev bs"] by simp

lemma le_val_rev_bound: "length bs = n \<Longrightarrow> le_val (rev bs) < 256 ^ n"
  using le_val_bound [of "rev bs"] by simp

lemma ntohl_htonl [simp]: "ntohl (htonl x) = x"
proof -
  have "le_val (rev (le_bytes 4 (unat x))) < 256 ^ 4"
    by (rule le_val_rev_bound) simp
  then have "unat (htonl x) = le_val (rev (le_bytes 4 (unat x)))"
    by (simp add: htonl_def unat_of_nat)
  moreover have "unat x < 256 ^ 4" using unat_u32_lt [of x] by simp
  ultimately show ?thesis
    by (simp add: ntohl_def le_bytes_rev_val le_val_bytes)
qed

lemma htonl_ntohl [simp]: "htonl (ntohl x) = x"
  using ntohl_htonl [of x] by (simp add: htonl_def ntohl_def)

lemma htonl_inject [simp]: "htonl x = htonl y \<longleftrightarrow> x = y"
  by (metis ntohl_htonl)

lemma ntohs_htons [simp]: "ntohs (htons x) = x"
proof -
  have "le_val (rev (le_bytes 2 (unat x))) < 256 ^ 2"
    by (rule le_val_rev_bound) simp
  then have "unat (htons x) = le_val (rev (le_bytes 2 (unat x)))"
    by (simp add: htons_def unat_of_nat)
  moreover have "unat x < 256 ^ 2" using unat_u16_lt [of x] by simp
  ultimately show ?thesis
    by (simp add: ntohs_def le_bytes_rev_val le_val_bytes)
qed

section \<open>Buffers\<close>

text \<open>
  \<^verbatim>\<open>memcpy\<close> out of and into a buffer at an offset. An access outside the buffer is \<open>None\<close>.
\<close>

definition read_bytes :: "u8 list \<Rightarrow> nat \<Rightarrow> nat \<Rightarrow> u8 list option" where
  "read_bytes buf off n =
     (if off + n \<le> length buf then Some (take n (drop off buf)) else None)"

definition write_bytes :: "u8 list \<Rightarrow> nat \<Rightarrow> u8 list \<Rightarrow> u8 list option" where
  "write_bytes buf off bs =
     (if off + length bs \<le> length buf
      then Some (take off buf @ bs @ drop (off + length bs) buf) else None)"

lemma read_bytes_length: "read_bytes buf off n = Some bs \<Longrightarrow> length bs = n"
  by (auto simp: read_bytes_def split: if_splits)

lemma write_bytes_length: "write_bytes buf off bs = Some buf' \<Longrightarrow> length buf' = length buf"
  by (auto simp: write_bytes_def split: if_splits)

lemma write_bytes_Some:
  "off + length bs \<le> length buf \<Longrightarrow> \<exists>buf'. write_bytes buf off bs = Some buf'"
  by (simp add: write_bytes_def)

lemma read_write_same:
  assumes "write_bytes buf off bs = Some buf'"
  shows "read_bytes buf' off (length bs) = Some bs"
  using assms by (auto simp: write_bytes_def read_bytes_def split: if_splits)

lemma read_write_disjoint:
  assumes "write_bytes buf off bs = Some buf'"
    and "off' + n \<le> off \<or> off + length bs \<le> off'"
  shows "read_bytes buf' off' n = read_bytes buf off' n"
proof -
  have len: "length buf' = length buf" using assms(1) by (rule write_bytes_length)
  have fit: "off + length bs \<le> length buf"
    and buf': "buf' = take off buf @ bs @ drop (off + length bs) buf"
    using assms(1) by (auto simp: write_bytes_def split: if_splits)
  from assms(2) show ?thesis
  proof
    assume "off' + n \<le> off"
    then show ?thesis using fit len
      by (auto simp: read_bytes_def buf' drop_take)
  next
    assume le: "off + length bs \<le> off'"
    have "drop off' buf' = drop (off' - (off + length bs)) (drop (off + length bs) buf)"
      using le fit by (simp add: buf')
    with le fit len show ?thesis by (auto simp: read_bytes_def)
  qed
qed

section \<open>Codecs\<close>

text \<open>
  The interface of a fixed-size format: every value is encoded in \<open>width\<close> bytes, and reading
  them gives the value back. What a client needs is proved once, in the locale.
\<close>

locale codec =
  fixes enc :: "'a \<Rightarrow> u8 list"
    and dec :: "u8 list \<Rightarrow> 'a"
    and width :: nat
  assumes length_enc: "length (enc x) = width"
    and dec_enc: "dec (enc x) = x"
begin

lemma dec_prefix: "dec (take width (enc x @ rest)) = x"
  by (simp add: length_enc dec_enc)

lemma rest_after: "drop width (enc x @ rest) = rest"
  by (simp add: length_enc)

lemma enc_inj: "enc x = enc y \<longleftrightarrow> x = y"
  by (metis dec_enc)

lemma read_after_write:
  assumes "write_bytes buf off (enc x @ rest) = Some buf'"
  shows "map_option dec (read_bytes buf' off width) = Some x"
proof -
  from assms have fit: "off + (width + length rest) \<le> length buf"
    and buf': "buf' = take off buf @ (enc x @ rest) @ drop (off + (width + length rest)) buf"
    by (auto simp: write_bytes_def length_enc split: if_splits)
  then have "take width (drop off buf') = enc x" by (simp add: length_enc)
  with fit buf' show ?thesis by (simp add: read_bytes_def length_enc dec_enc)
qed

end

locale codec_pair =
  fst: codec enc1 dec1 width1 + snd: codec enc2 dec2 width2
  for enc1 :: "'a \<Rightarrow> u8 list" and dec1 and width1
    and enc2 :: "'b \<Rightarrow> u8 list" and dec2 and width2

sublocale codec_pair \<subseteq> both: codec
    "\<lambda>p. enc1 (fst p) @ enc2 (snd p)"
    "\<lambda>bs. (dec1 (take width1 bs), dec2 (drop width1 bs))"
    "width1 + width2"
  by unfold_locales
    (simp_all add: fst.length_enc snd.length_enc fst.dec_enc snd.dec_enc)

section \<open>The integer codecs\<close>

definition put_u8 :: "u8 \<Rightarrow> u8 list" where "put_u8 w = [w]"
definition get_u8 :: "u8 list \<Rightarrow> u8" where "get_u8 bs = word_of_nat (le_val bs)"
definition put_u16 :: "u16 \<Rightarrow> u8 list" where "put_u16 w = le_bytes 2 (unat w)"
definition get_u16 :: "u8 list \<Rightarrow> u16" where "get_u16 bs = word_of_nat (le_val bs)"
definition put_u32 :: "u32 \<Rightarrow> u8 list" where "put_u32 w = le_bytes 4 (unat w)"
definition get_u32 :: "u8 list \<Rightarrow> u32" where "get_u32 bs = word_of_nat (le_val bs)"

definition put_u64 :: "u64 \<Rightarrow> u8 list" where "put_u64 w = le_bytes 8 (unat w)"
definition get_u64 :: "u8 list \<Rightarrow> u64" where "get_u64 bs = word_of_nat (le_val bs)"


interpretation c8: codec put_u8 get_u8 1
  by unfold_locales (simp_all add: put_u8_def get_u8_def)

interpretation c16: codec put_u16 get_u16 2
proof
  fix x :: u16
  show "length (put_u16 x) = 2" by (simp add: put_u16_def)
  show "get_u16 (put_u16 x) = x"
    using unat_u16_lt [of x] by (simp add: put_u16_def get_u16_def le_val_bytes)
qed

interpretation c32: codec put_u32 get_u32 4
proof
  fix x :: u32
  show "length (put_u32 x) = 4" by (simp add: put_u32_def)
  show "get_u32 (put_u32 x) = x"
    using unat_u32_lt [of x] by (simp add: put_u32_def get_u32_def le_val_bytes)
qed

interpretation c64: codec put_u64 get_u64 8
proof
  fix x :: u64
  show "length (put_u64 x) = 8" by (simp add: put_u64_def)
  show "get_u64 (put_u64 x) = x"
    using unat_u64_lt [of x] by (simp add: put_u64_def get_u64_def le_val_bytes)
qed

end
