(* ===== verification/Cstdlib.thy ===== *)
theory Cstdlib
  imports Net_Prelude
begin

text \<open>
  What the sources use of the C library's text functions: the base-10 \<^verbatim>\<open>strtol\<close> and
  \<^verbatim>\<open>strtoul\<close> of a platform with 64-bit \<^verbatim>\<open>long\<close> (leading white space, one sign, saturation,
  the end pointer as the rest of the string), \<^verbatim>\<open>std::string::find\<close> of a character, and the
  decimal numerals these functions read back.
\<close>

section \<open>Characters\<close>

definition is_space :: "char \<Rightarrow> bool" where
  "is_space c \<longleftrightarrow> of_char c = (32::nat) \<or> ((9::nat) \<le> of_char c \<and> of_char c \<le> (13::nat))"

definition is_digit :: "char \<Rightarrow> bool" where
  "is_digit c \<longleftrightarrow> (48::nat) \<le> of_char c \<and> of_char c \<le> (57::nat)"

definition digit_val :: "char \<Rightarrow> nat" where
  "digit_val c = of_char c - 48"

definition digit_char :: "nat \<Rightarrow> char" where
  "digit_char d = char_of (48 + d)"

lemma of_char_digit_char: "d < 10 \<Longrightarrow> of_char (digit_char d) = (48 + d :: nat)"
  by (simp add: digit_char_def of_char_of)

lemma digit_char [simp]:
  assumes "d < 10"
  shows "is_digit (digit_char d)" and "digit_val (digit_char d) = d" and "\<not> is_space (digit_char d)"
  using assms by (simp_all add: is_digit_def digit_val_def is_space_def of_char_digit_char)

section \<open>Decimal numerals\<close>

fun dec_val :: "nat \<Rightarrow> string \<Rightarrow> nat" where
  "dec_val acc [] = acc"
| "dec_val acc (c # cs) = dec_val (10 * acc + digit_val c) cs"

fun dec_string :: "nat \<Rightarrow> string" where
  "dec_string n =
     (if n < 10 then [digit_char n] else dec_string (n div 10) @ [digit_char (n mod 10)])"

declare dec_string.simps [simp del]

lemma dec_val_append: "dec_val acc (xs @ ys) = dec_val (dec_val acc xs) ys"
  by (induction xs arbitrary: acc) auto

text \<open>\<^verbatim>\<open>%d\<close>, and the line \<^verbatim>\<open>"...: errno=%d (%s)\\n"\<close> that the error reports share.\<close>

definition newline :: string where "newline = [CHR 0x0A]"

definition int_string :: "int \<Rightarrow> string" where
  "int_string i = (if i < 0 then CHR ''-'' # dec_string (nat (- i)) else dec_string (nat i))"

definition errno_line :: "string \<Rightarrow> int \<Rightarrow> string \<Rightarrow> string" where
  "errno_line what e err_str =
     what @ ''errno='' @ int_string e @ '' ('' @ err_str @ '')'' @ newline"

lemma dec_string_digits: "list_all is_digit (dec_string n)"
proof (induction n rule: dec_string.induct)
  case (1 n)
  then show ?case by (subst dec_string.simps) auto
qed

lemma dec_string_nonempty: "dec_string n \<noteq> []"
  by (subst dec_string.simps) simp

lemma dec_val_string: "dec_val 0 (dec_string n) = n"
proof (induction n rule: dec_string.induct)
  case (1 n)
  then show ?case by (subst dec_string.simps) (auto simp: dec_val_append)
qed

lemma dec_string_length: "n < 10 ^ Suc k \<Longrightarrow> length (dec_string n) \<le> Suc k"
proof (induction k arbitrary: n)
  case 0
  then show ?case by (subst dec_string.simps) simp
next
  case (Suc k)
  then have "n div 10 < 10 ^ Suc k" by (simp add: less_mult_imp_div_less)
  then have "length (dec_string (n div 10)) \<le> Suc k" by (rule Suc.IH)
  then show ?case by (subst dec_string.simps) simp
qed

lemma dec_string_no:
  assumes "\<not> is_digit c"
  shows "c \<notin> set (dec_string n)"
  using assms dec_string_digits [of n] by (auto simp: list_all_iff)

section \<open>Conversions\<close>

definition LONG_MAX :: int where "LONG_MAX = 2 ^ 63 - 1"
definition LONG_MIN :: int where "LONG_MIN = - (2 ^ 63)"
definition ULONG_MAX :: nat where "ULONG_MAX = 2 ^ 64 - 1"

definition sign_split :: "string \<Rightarrow> bool \<times> string" where
  "sign_split s = (case s of
      c # cs \<Rightarrow> if c = CHR ''-'' then (True, cs) else if c = CHR ''+'' then (False, cs) else (False, s)
    | [] \<Rightarrow> (False, []))"

text \<open>
  The value and what is left of the string at the end pointer. With no digits nothing is
  consumed, white space and sign included.
\<close>

definition strtol10 :: "string \<Rightarrow> int \<times> string" where
  "strtol10 s =
     (let (neg, t) = sign_split (dropWhile is_space s);
          ds = takeWhile is_digit t;
          v = int (dec_val 0 ds);
          v' = (if neg then - v else v)
      in if ds = [] then (0, s)
         else (if v' < LONG_MIN then LONG_MIN else if LONG_MAX < v' then LONG_MAX else v',
               dropWhile is_digit t))"

definition strtoul10 :: "string \<Rightarrow> u64" where
  "strtoul10 s =
     (let (neg, t) = sign_split (dropWhile is_space s);
          v = dec_val 0 (takeWhile is_digit t)
      in if ULONG_MAX < v then word_of_nat ULONG_MAX
         else if neg then - word_of_nat v else word_of_nat v)"

fun find_char :: "char \<Rightarrow> string \<Rightarrow> nat option" where
  "find_char c [] = None"
| "find_char c (x # xs) = (if x = c then Some 0 else map_option Suc (find_char c xs))"

lemma find_char_None: "find_char c s = None \<longleftrightarrow> c \<notin> set s"
  by (induction s) auto

lemma find_char_append: "c \<notin> set s \<Longrightarrow> find_char c (s @ c # t) = Some (length s)"
  by (induction s) auto

lemma digit_not_sign:
  assumes "is_digit c"
  shows "c \<noteq> CHR ''-''" "c \<noteq> CHR ''+''" "\<not> is_space c"
  using assms by (auto simp: is_digit_def is_space_def)

lemma sign_split_digit: "is_digit c \<Longrightarrow> sign_split (c # cs) = (False, c # cs)"
  by (auto simp: sign_split_def digit_not_sign)

lemma strip_digits:
  assumes "list_all is_digit ds" and "ds \<noteq> []"
  shows "sign_split (dropWhile is_space (ds @ t)) = (False, ds @ t)"
  using assms by (cases ds) (auto simp: sign_split_digit digit_not_sign)

lemma takeWhile_digits:
  assumes "list_all is_digit ds" and "t = [] \<or> \<not> is_digit (hd t)"
  shows "takeWhile is_digit (ds @ t) = ds" and "dropWhile is_digit (ds @ t) = t"
  using assms by (cases t; auto simp: list_all_iff takeWhile_append dropWhile_append)+

lemma strtol10_dec:
  assumes "t = [] \<or> \<not> is_digit (hd t)"
  shows "strtol10 (dec_string n @ t) = (min (int n) LONG_MAX, t)"
  using assms
  by (auto simp: strtol10_def strip_digits [OF dec_string_digits dec_string_nonempty]
      takeWhile_digits [OF dec_string_digits] dec_string_nonempty dec_val_string
      LONG_MIN_def LONG_MAX_def Let_def)

lemma strtoul10_dec:
  assumes "n \<le> ULONG_MAX"
  shows "strtoul10 (dec_string n) = word_of_nat n"
proof -
  have ss: "sign_split (dropWhile is_space (dec_string n)) = (False, dec_string n)"
    using strip_digits [OF dec_string_digits dec_string_nonempty, of n "[]"] by simp
  have tw: "takeWhile is_digit (dec_string n) = dec_string n"
    using dec_string_digits [of n] by (simp add: takeWhile_eq_all_conv list_all_iff)
  show ?thesis
    using assms by (simp add: strtoul10_def ss tw dec_val_string)
qed

end
