(* ===== verification/Inet_Text.thy ===== *)
theory Inet_Text
  imports Bytes Cstdlib
begin

text \<open>
  The interface the sources rely on when they call \<^verbatim>\<open>inet_pton(AF_INET, ...)\<close> and
  \<^verbatim>\<open>inet_ntop(AF_INET, ...)\<close>: the locale \<open>inet_text\<close>. Both functions work on \<^verbatim>\<open>s_addr\<close>, an
  address in network byte order. They stay parameters of the model; the dotted-decimal
  conversion of POSIX (four decimal parts of one to three digits, each at most 255) is given
  as the instance \<open>dotted\<close>, and it satisfies the interface.
\<close>

section \<open>The interface\<close>

locale inet_text =
  fixes pton :: "string \<Rightarrow> u32 option"
    and ntop :: "u32 \<Rightarrow> string"
  assumes pton_ntop: "pton (ntop a) = Some a"
    and ntop_no_slash: "CHR ''/'' \<notin> set (ntop a)"
    and ntop_fits: "length (ntop a) < 16"
begin

lemma ntop_inj: "ntop a = ntop b \<longleftrightarrow> a = b"
  by (metis pton_ntop option.inject)

lemma find_slash_after: "find_char CHR ''/'' (ntop a @ CHR ''/'' # t) = Some (length (ntop a))"
  by (rule find_char_append) (rule ntop_no_slash)

lemma find_slash_none: "find_char CHR ''/'' (ntop a) = None"
  by (simp add: find_char_None ntop_no_slash)

end

section \<open>Dotted decimal\<close>

fun split_on :: "char \<Rightarrow> string \<Rightarrow> string list" where
  "split_on c [] = [[]]"
| "split_on c (x # xs) =
     (if x = c then [] # split_on c xs
      else case split_on c xs of [] \<Rightarrow> [[x]] | p # ps \<Rightarrow> (x # p) # ps)"

definition octet :: "string \<Rightarrow> u8 option" where
  "octet p =
     (if p \<noteq> [] \<and> length p \<le> 3 \<and> list_all is_digit p \<and> dec_val 0 p \<le> 255
      then Some (word_of_nat (dec_val 0 p)) else None)"

definition dotted_pton :: "string \<Rightarrow> u32 option" where
  "dotted_pton s = (case map octet (split_on CHR ''.'' s) of
      [Some a, Some b, Some c, Some d] \<Rightarrow> Some (get_u32 [a, b, c, d])
    | _ \<Rightarrow> None)"

definition byte_string :: "u8 \<Rightarrow> string" where
  "byte_string b = dec_string (unat b)"

definition dotted_ntop :: "u32 \<Rightarrow> string" where
  "dotted_ntop a = (case map byte_string (put_u32 a) of
      [p, q, r, s] \<Rightarrow> p @ CHR ''.'' # q @ CHR ''.'' # r @ CHR ''.'' # s
    | _ \<Rightarrow> [])"

lemma split_on_free: "c \<notin> set s \<Longrightarrow> split_on c s = [s]"
  by (induction s) auto

lemma split_on_append: "c \<notin> set s \<Longrightarrow> split_on c (s @ c # t) = s # split_on c t"
  by (induction s) auto

lemma dot_not_digit [simp]: "\<not> is_digit CHR ''.''" "\<not> is_digit CHR ''/''"
  by (simp_all add: is_digit_def)

lemma byte_string_no [simp]: "CHR ''.'' \<notin> set (byte_string b)" "CHR ''/'' \<notin> set (byte_string b)"
  by (simp_all add: byte_string_def dec_string_no)

lemma byte_string_length: "length (byte_string b) \<le> 3"
  using dec_string_length [of "unat b" 2] unat_u8_lt [of b] by (simp add: byte_string_def)

lemma octet_byte_string [simp]: "octet (byte_string b) = Some b"
proof -
  have v: "dec_val 0 (byte_string b) = unat b" by (simp add: byte_string_def dec_val_string)
  have d: "list_all is_digit (byte_string b)" by (simp add: byte_string_def dec_string_digits)
  have n: "byte_string b \<noteq> []" by (simp add: byte_string_def dec_string_nonempty)
  have "unat b \<le> 255" using unat_u8_lt [of b] by linarith
  then show ?thesis
    by (simp add: octet_def v d n byte_string_length)
qed

lemma put_u32_4: "\<exists>b0 b1 b2 b3. put_u32 a = [b0, b1, b2, b3]"
  by (rule length_4) (rule c32.length_enc)

lemma dotted_ntop_parts:
  obtains b0 b1 b2 b3 where "put_u32 a = [b0, b1, b2, b3]"
    and "dotted_ntop a = byte_string b0 @ CHR ''.'' # byte_string b1 @ CHR ''.'' #
           byte_string b2 @ CHR ''.'' # byte_string b3"
  using put_u32_4 [of a] by (auto simp: dotted_ntop_def)

interpretation dotted: inet_text dotted_pton dotted_ntop
proof
  fix a
  obtain b0 b1 b2 b3 where put: "put_u32 a = [b0, b1, b2, b3]"
    and ntop: "dotted_ntop a = byte_string b0 @ CHR ''.'' # byte_string b1 @ CHR ''.'' #
           byte_string b2 @ CHR ''.'' # byte_string b3"
    by (rule dotted_ntop_parts)
  have "dotted_pton (dotted_ntop a) = Some (get_u32 (put_u32 a))"
    by (simp add: dotted_pton_def ntop put split_on_append split_on_free)
  then show "dotted_pton (dotted_ntop a) = Some a" by (simp add: c32.dec_enc)
  show "CHR ''/'' \<notin> set (dotted_ntop a)" by (simp add: ntop)
  show "length (dotted_ntop a) < 16"
    using byte_string_length [of b0] byte_string_length [of b1]
      byte_string_length [of b2] byte_string_length [of b3] by (simp add: ntop)
qed

end
