(* ===== verification/Os.thy ===== *)
theory Os
  imports Bytes
begin

text \<open>
  The Linux kernel and the parts of the C library that ask it questions are not part of the
  repository: they are a parameter, a record \<open>'w os\<close> of functions over an unknown environment
  \<open>'w\<close> that every call may read and change. Calls whose result is a status word share one field,
  \<open>os_call\<close>, indexed by the request; each result is the return value with the \<^verbatim>\<open>errno\<close> the call
  leaves.

  A \<open>world\<close> adds a ledger of descriptors to the environment: \<open>sys_call\<close> enters a descriptor
  when a call returns one and strikes it out when it is closed, and counts the closes of
  descriptors that are not open. What the code leaks or closes twice is a fact about the ledger.
\<close>

section \<open>Linux constants\<close>

abbreviation (input) EPERM :: int where "EPERM \<equiv> 1"
abbreviation (input) EINTR :: int where "EINTR \<equiv> 4"
abbreviation (input) EBADF :: int where "EBADF \<equiv> 9"
abbreviation (input) EAGAIN :: int where "EAGAIN \<equiv> 11"
abbreviation (input) EWOULDBLOCK :: int where "EWOULDBLOCK \<equiv> 11"
abbreviation (input) ENOMEM :: int where "ENOMEM \<equiv> 12"
abbreviation (input) EACCES :: int where "EACCES \<equiv> 13"
abbreviation (input) EFAULT :: int where "EFAULT \<equiv> 14"
abbreviation (input) EINVAL :: int where "EINVAL \<equiv> 22"
abbreviation (input) ENOTSOCK :: int where "ENOTSOCK \<equiv> 88"
abbreviation (input) EMSGSIZE :: int where "EMSGSIZE \<equiv> 90"
abbreviation (input) ENOPROTOOPT :: int where "ENOPROTOOPT \<equiv> 92"
abbreviation (input) ENOBUFS :: int where "ENOBUFS \<equiv> 105"
abbreviation (input) EINPROGRESS :: int where "EINPROGRESS \<equiv> 115"

definition EPOLLIN :: u32 where "EPOLLIN = 0x1"
definition EPOLLOUT :: u32 where "EPOLLOUT = 0x4"
definition EPOLLERR :: u32 where "EPOLLERR = 0x8"
definition EPOLLHUP :: u32 where "EPOLLHUP = 0x10"
definition EPOLLET :: u32 where "EPOLLET = 0x80000000"

definition O_NONBLOCK :: u32 where "O_NONBLOCK = 0x800"
abbreviation (input) AF_INET :: nat where "AF_INET \<equiv> 2"
abbreviation (input) IFF_UP :: u32 where "IFF_UP \<equiv> 0x1"
abbreviation (input) IFF_BROADCAST :: u32 where "IFF_BROADCAST \<equiv> 0x2"
abbreviation (input) IFF_LOOPBACK :: u32 where "IFF_LOOPBACK \<equiv> 0x8"

section \<open>Requests and messages\<close>

datatype sock_kind = Udp_socket | Icmp_socket | Tcp_socket | Netlink_socket

datatype sock_option =
    SO_SNDBUF | SO_RCVBUF | SO_TIMESTAMPNS | SO_RXQ_OVFL | IP_RECVTTL

datatype epoll_op = EPOLL_CTL_ADD | EPOLL_CTL_MOD | EPOLL_CTL_DEL

record epoll_event =
  ep_events :: u32
  ep_data :: u32

datatype request =
    Socket sock_kind
  | Connect int u32 u16
  | Close int
  | Fcntl_getfl int
  | Fcntl_setfl int u32
  | Setsockopt int sock_option int
  | Epoll_create1
  | Epoll_ctl int epoll_op int "epoll_event option"
  | Send int "u8 list"
  | Fprintf_stderr string
  | Perror string

record tx_msg =
  tx_addr :: u32
  tx_data :: "u8 list"

record cmsg =
  cm_level :: int
  cm_type :: int
  cm_data :: "u8 list"

record rx_msg =
  rx_addr :: u32
  rx_data :: "u8 list"
  rx_cmsgs :: "cmsg list"

record sockaddr =
  sa_family :: nat
  sa_addr :: u32

record ifaddrs =
  ifa_name :: string
  ifa_flags :: u32
  ifa_addr :: "sockaddr option"
  ifa_netmask :: "sockaddr option"

section \<open>The operating system as a parameter\<close>

record 'w os =
  os_call :: "request \<Rightarrow> 'w \<Rightarrow> (int \<times> int) \<times> 'w"
  os_clock_gettime :: "'w \<Rightarrow> timespec \<times> 'w"
  os_getpid :: "'w \<Rightarrow> u32 \<times> 'w"
  os_getsockname :: "int \<Rightarrow> 'w \<Rightarrow> (int \<times> u32) \<times> 'w"
  os_getifaddrs :: "'w \<Rightarrow> (int \<times> ifaddrs list) \<times> 'w"
  os_getnameinfo :: "u32 \<Rightarrow> 'w \<Rightarrow> (int \<times> string) \<times> 'w"
  os_if_indextoname :: "u32 \<Rightarrow> 'w \<Rightarrow> string option \<times> 'w"
  os_getsockopt_error :: "int \<Rightarrow> 'w \<Rightarrow> (int \<times> int \<times> int) \<times> 'w"
  os_epoll_wait :: "int \<Rightarrow> nat \<Rightarrow> int \<Rightarrow> 'w \<Rightarrow> (int \<times> int \<times> epoll_event list) \<times> 'w"
  os_sendmmsg :: "int \<Rightarrow> tx_msg list \<Rightarrow> 'w \<Rightarrow> (int \<times> int) \<times> 'w"
  os_recvmmsg :: "int \<Rightarrow> nat \<Rightarrow> 'w \<Rightarrow> (int \<times> int \<times> rx_msg list) \<times> 'w"
  os_recvmsg :: "int \<Rightarrow> nat \<Rightarrow> 'w \<Rightarrow> (int \<times> int \<times> bool \<times> u8 list) \<times> 'w"
  os_inet_pton :: "string \<Rightarrow> u32 option"
  os_inet_ntop :: "u32 \<Rightarrow> string"

record descriptors =
  open_fds :: "int list"
  bad_closes :: nat

record 'w world =
  led :: descriptors
  env :: 'w

fun led_step :: "request \<Rightarrow> int \<Rightarrow> descriptors \<Rightarrow> descriptors" where
  "led_step (Socket k) r d = (if r < 0 then d else d\<lparr>open_fds := r # open_fds d\<rparr>)"
| "led_step Epoll_create1 r d = (if r < 0 then d else d\<lparr>open_fds := r # open_fds d\<rparr>)"
| "led_step (Close fd) r d =
     (if fd \<in> set (open_fds d) then d\<lparr>open_fds := remove1 fd (open_fds d)\<rparr>
      else d\<lparr>bad_closes := Suc (bad_closes d)\<rparr>)"
| "led_step _ r d = d"

definition sys_call :: "'w os \<Rightarrow> request \<Rightarrow> 'w world \<Rightarrow> (int \<times> int) \<times> 'w world" where
  "sys_call os q w =
     (let (r, v) = os_call os q (env w) in (r, w\<lparr>led := led_step q (fst r) (led w), env := v\<rparr>))"

definition sys_close :: "'w os \<Rightarrow> int \<Rightarrow> 'w world \<Rightarrow> 'w world" where
  "sys_close os fd w = snd (sys_call os (Close fd) w)"

text \<open>Every other call leaves the ledger alone: it acts on the environment only.\<close>

definition on_env :: "('w \<Rightarrow> 'a \<times> 'w) \<Rightarrow> 'w world \<Rightarrow> 'a \<times> 'w world" where
  "on_env f w = (let (a, v) = f (env w) in (a, w\<lparr>env := v\<rparr>))"

section \<open>The ledger under calls\<close>

text \<open>
  In a proof about descriptors the equation of a call is traded for what the call does to the
  ledger; \<open>led_simps\<close> computes it.
\<close>

lemma sys_call_led: "sys_call os q w = (r, w') \<Longrightarrow> led w' = led_step q (fst r) (led w)"
  by (auto simp: sys_call_def split: prod.splits)

lemma on_env_led: "on_env f w = (a, w') \<Longrightarrow> led w' = led w"
  by (auto simp: on_env_def split: prod.splits)

lemma sys_close_led [simp]: "led (sys_close os fd w) = led_step (Close fd) 0 (led w)"
  by (simp add: sys_close_def sys_call_def split: prod.splits)

lemmas led_dests = sys_call_led on_env_led

end
