(* ===== verification/Utils.thy ===== *)
theory Utils
  imports Inet_Text Os
begin

text \<open>
  \<^verbatim>\<open>include/utils.hpp\<close> and \<^verbatim>\<open>src/utils.cpp\<close>: the defaults, batch-size clamping, address
  formatting, CIDR parsing, reverse lookup, and the detection of the local interface. The
  lemmas say what block of addresses \<open>parse_cidr\<close> yields, that it reads back what it is given,
  and that \<open>fetch\<close> closes the socket it opens and reports overlap with the local subnet.
\<close>

section \<open>Constants\<close>

definition EPOLL_TIMEOUT_MS :: int where "EPOLL_TIMEOUT_MS = 1"
definition BITS_IN_IPV4 :: int where "BITS_IN_IPV4 = 32"
definition DEFAULT_PAYLOAD_LEN :: size_t where "DEFAULT_PAYLOAD_LEN = 0"
definition PAYLOAD_CHAR_OFFSET :: nat where "PAYLOAD_CHAR_OFFSET = 10"
definition PAYLOAD_CHAR_MOD :: nat where "PAYLOAD_CHAR_MOD = 26"
definition DEFAULT_PING_TIMEOUT_MS :: u32 where "DEFAULT_PING_TIMEOUT_MS = 800"
definition DEFAULT_TCP_TIMEOUT_MS :: u32 where "DEFAULT_TCP_TIMEOUT_MS = 600"
definition DEFAULT_MAX_PROBES :: size_t where "DEFAULT_MAX_PROBES = 4096"
definition DEFAULT_PING_SEND_BATCH_SIZE :: size_t where "DEFAULT_PING_SEND_BATCH_SIZE = 4"
definition DEFAULT_PING_RECV_BATCH_SIZE :: size_t where "DEFAULT_PING_RECV_BATCH_SIZE = 128"
definition DEFAULT_TCP_PORT :: u16 where "DEFAULT_TCP_PORT = 443"
definition DEFAULT_TCP_BATCH_SIZE :: size_t where "DEFAULT_TCP_BATCH_SIZE = 64"
definition DEFAULT_RESOLVE_DNS :: bool where "DEFAULT_RESOLVE_DNS = True"
definition MAX_RX_PACKET_SIZE :: size_t where "MAX_RX_PACKET_SIZE = 2048"
definition INET_ADDRSTRLEN :: nat where "INET_ADDRSTRLEN = 16"

definition UINT_MAX :: nat where "UINT_MAX = 2 ^ 32 - 1"

definition safe_batch_size :: "size_t \<Rightarrow> size_t \<Rightarrow> size_t" where
  "safe_batch_size val max_hosts = (let limit = min val max_hosts in min limit UINT_MAX)"

section \<open>Addresses as text\<close>

text \<open>
  \<^verbatim>\<open>inet_ntop\<close> fills the caller's buffer when text and terminator fit, and leaves it alone
  otherwise. A buffer is the C string it holds; its size is \<open>len\<close>.
\<close>

definition inet_ntop_into :: "(u32 \<Rightarrow> string) \<Rightarrow> u32 \<Rightarrow> string \<Rightarrow> nat \<Rightarrow> string" where
  "inet_ntop_into ntop a buf len = (if length (ntop a) < len then ntop a else buf)"

definition format_ip :: "(u32 \<Rightarrow> string) \<Rightarrow> u32 \<Rightarrow> string \<Rightarrow> nat \<Rightarrow> string" where
  "format_ip ntop ip_address buf len = inet_ntop_into ntop (htonl ip_address) buf len"

definition resolve_hostname :: "'w os \<Rightarrow> u32 \<Rightarrow> 'w world \<Rightarrow> string \<times> 'w world" where
  "resolve_hostname os ip_address w =
     (let ((res, host), w') = on_env (os_getnameinfo os (htonl ip_address)) w
      in (if res = 0 then host else ''N/A'', w'))"

section \<open>CIDR blocks\<close>

text \<open>
  \<^verbatim>\<open>parse_cidr\<close> writes its two out-parameters exactly when it returns true: the model returns
  them, or \<open>None\<close> for false. A null pointer is \<open>None\<close>. \<open>push_bit\<close> is \<^verbatim>\<open><<\<close> on 32 bits.
\<close>

definition prefix_mask :: "int \<Rightarrow> u32" where
  "prefix_mask prefix = (if prefix = 0 then 0 else push_bit (nat (BITS_IN_IPV4 - prefix)) (NOT 0))"

definition parse_cidr :: "(string \<Rightarrow> u32 option) \<Rightarrow> string option \<Rightarrow> (u32 \<times> u32) option" where
  "parse_cidr pton input =
     (case input of
        None \<Rightarrow> None
      | Some input_str \<Rightarrow>
          (case find_char CHR ''/'' input_str of
             None \<Rightarrow>
               (case pton input_str of
                  None \<Rightarrow> None
                | Some s_addr \<Rightarrow> Some (ntohl s_addr, 1))
           | Some slash_pos \<Rightarrow>
               (case pton (take slash_pos input_str) of
                  None \<Rightarrow> None
                | Some s_addr \<Rightarrow>
                    let prefix_str = drop (slash_pos + 1) input_str in
                    if prefix_str = [] then None
                    else
                      let (prefix_long, end_ptr) = strtol10 prefix_str in
                      if end_ptr = prefix_str \<or> end_ptr \<noteq> [] then None
                      else if prefix_long < 0 \<or> prefix_long > BITS_IN_IPV4 then None
                      else
                        let prefix = prefix_long;
                            base = ntohl s_addr;
                            mask = prefix_mask prefix;
                            out_base_ip = base AND mask;
                            out_count = (if prefix = BITS_IN_IPV4 then 1 else NOT mask + 1)
                        in Some (out_base_ip, out_count))))"

section \<open>The local interface\<close>

record NetworkInterface =
  if_name :: string
  if_ip :: string
  if_network :: string
  if_broadcast :: string
  ip_address :: u32
  network_ip :: u32
  broadcast_ip :: u32
  is_local :: bool

definition no_interface :: NetworkInterface where
  "no_interface =
     \<lparr>if_name = [], if_ip = [], if_network = [], if_broadcast = [],
      ip_address = 0, network_ip = 0, broadcast_ip = 0, is_local = False\<rparr>"

text \<open>
  The walk over the interface list: entries without address or mask, of another family, down,
  loopback or without broadcast are skipped, and so is every address but the one the kernel
  routes from; the first that is left is described. The three texts share one buffer of
  \<^verbatim>\<open>INET_ADDRSTRLEN\<close> bytes, and each is copied only when \<^verbatim>\<open>inet_ntop\<close> returned it.
\<close>

definition ntop_field :: "(u32 \<Rightarrow> string) \<Rightarrow> u32 \<Rightarrow> string" where
  "ntop_field ntop a = (if length (ntop a) < INET_ADDRSTRLEN then ntop a else [])"

fun find_interface ::
    "(u32 \<Rightarrow> string) \<Rightarrow> u32 \<Rightarrow> u32 \<Rightarrow> u32 \<Rightarrow> ifaddrs list \<Rightarrow> NetworkInterface" where
  "find_interface ntop local_ip target_base_ip target_end_ip [] = no_interface"
| "find_interface ntop local_ip target_base_ip target_end_ip (ifa # rest) =
     (let next_ifa = find_interface ntop local_ip target_base_ip target_end_ip rest in
      case (ifa_addr ifa, ifa_netmask ifa) of
        (Some addr, Some netmask) \<Rightarrow>
          if sa_family addr \<noteq> AF_INET then next_ifa
          else if ifa_flags ifa AND IFF_UP = 0 \<or> ifa_flags ifa AND IFF_LOOPBACK \<noteq> 0 \<or>
                  ifa_flags ifa AND IFF_BROADCAST = 0 then next_ifa
          else
            let current_ip = ntohl (sa_addr addr) in
            if current_ip \<noteq> local_ip then next_ifa
            else
              let m = ntohl (sa_addr netmask);
                  net = current_ip AND m;
                  bcast = current_ip OR NOT m
              in \<lparr>if_name = ifa_name ifa,
                  if_ip = ntop_field ntop (sa_addr addr),
                  if_network = ntop_field ntop (htonl net),
                  if_broadcast = ntop_field ntop (htonl bcast),
                  ip_address = current_ip,
                  network_ip = net,
                  broadcast_ip = bcast,
                  is_local = (target_base_ip \<le> bcast \<and> target_end_ip \<ge> net)\<rparr>
      | _ \<Rightarrow> next_ifa)"

text \<open>\<^verbatim>\<open>1.1.1.1\<close> port 53 is connected on a datagram socket, so that no packet is sent.\<close>

definition default_dns_ip :: string where "default_dns_ip = ''1.1.1.1''"
definition default_dns_port :: u16 where "default_dns_port = 53"

definition fetch ::
    "'w os \<Rightarrow> u32 \<Rightarrow> u32 \<Rightarrow> 'w world \<Rightarrow> NetworkInterface \<times> 'w world" where
  "fetch os target_base_ip total_hosts w =
     (let dns = (case os_inet_pton os default_dns_ip of None \<Rightarrow> 0 | Some a \<Rightarrow> a);
          ((sock, e), w1) = sys_call os (Socket Udp_socket) w
      in if sock < 0 then (no_interface, w1)
         else
           let ((c, e2), w2) = sys_call os (Connect sock dns (htons default_dns_port)) w1;
               ((g, local_addr), w3) =
                 (if c = 0 then on_env (os_getsockname os sock) w2 else ((-1, 0), w2));
               routed = (c = 0 \<and> g = 0);
               w4 = sys_close os sock w3
           in if \<not> routed then (no_interface, w4)
              else
                let local_ip = ntohl local_addr;
                    ((r, ifaddr), w5) = on_env (os_getifaddrs os) w4
                in if r = -1 then (no_interface, w5)
                   else
                     let target_end_ip =
                           (if total_hosts = 0 then target_base_ip
                            else target_base_ip + (total_hosts - 1))
                     in (find_interface (os_inet_ntop os) local_ip target_base_ip
                           target_end_ip ifaddr, w5))"

section \<open>What parse-cidr yields\<close>

text \<open>
  The reference: the block of prefix \<open>p\<close> around an address, in plain arithmetic.
\<close>

definition cidr_block :: "u32 \<Rightarrow> nat \<Rightarrow> u32 \<times> u32" where
  "cidr_block a p = (word_of_nat (unat a - unat a mod 2 ^ (32 - p)), word_of_nat (2 ^ (32 - p)))"

lemma prefix_mask_block:
  assumes "p \<le> 32"
  shows "(a AND prefix_mask (int p), if p = 32 then 1 else NOT (prefix_mask (int p)) + 1)
    = cidr_block a p"
proof (cases "p = 0")
  case True
  then show ?thesis
    using unat_u32_lt [of a] by (simp add: prefix_mask_def cidr_block_def)
next
  case False
  then have mask: "prefix_mask (int p) = NOT (mask (32 - p))"
    using assms by (simp add: prefix_mask_def BITS_IN_IPV4_def not_mask_shift nat_diff_distrib
        del: bit.compl_zero)
  have "a AND prefix_mask (int p) = word_of_nat (unat a - unat a mod 2 ^ (32 - p))"
    by (rule word_eq_of_nat) (simp only: mask unat_high_bits)
  moreover have "NOT (prefix_mask (int p)) + 1 = word_of_nat (2 ^ (32 - p))"
    by (simp add: mask mask_eq_exp_minus_1)
  ultimately show ?thesis by (simp add: cidr_block_def)
qed

lemma parse_cidr_slash:
  assumes "find_char CHR ''/'' s = Some i" and "pton (take i s) = Some a"
    and "strtol10 (drop (i + 1) s) = (p, rest)"
  shows "parse_cidr pton (Some s) =
    (if drop (i + 1) s \<noteq> [] \<and> rest = [] \<and> 0 \<le> p \<and> p \<le> 32
     then Some (cidr_block (ntohl a) (nat p)) else None)"
proof (cases "0 \<le> p \<and> p \<le> 32")
  case True
  then obtain n where "p = int n" "n \<le> 32" using zero_le_imp_eq_int by auto
  then have "(ntohl a AND prefix_mask p, if p = 32 then 1 else NOT (prefix_mask p) + 1)
      = cidr_block (ntohl a) (nat p)"
    using prefix_mask_block [of n "ntohl a"] by (cases "n = 32") simp_all
  with assms True show ?thesis
    by (auto simp: parse_cidr_def BITS_IN_IPV4_def Let_def split: if_splits)
next
  case False
  with assms show ?thesis
    by (auto simp: parse_cidr_def BITS_IN_IPV4_def Let_def)
qed

lemma parse_cidr_no_slash:
  assumes "find_char CHR ''/'' s = None"
  shows "parse_cidr pton (Some s) = map_option (\<lambda>a. (ntohl a, 1)) (pton s)"
  using assms by (simp add: parse_cidr_def split: option.splits)

lemma parse_cidr_SomeE:
  assumes "parse_cidr pton input = Some (b, c)"
  obtains (single) s a where "input = Some s" "pton s = Some a" "b = ntohl a" "c = 1"
    | (block) s i a p where "input = Some s" "find_char CHR ''/'' s = Some i"
        "pton (take i s) = Some a" "p \<le> 32" "(b, c) = cidr_block (ntohl a) p"
proof (cases input)
  case None
  with assms show thesis by (simp add: parse_cidr_def)
next
  case (Some s)
  show thesis
  proof (cases "find_char CHR ''/'' s")
    case None
    with assms Some single show thesis by (auto simp: parse_cidr_no_slash)
  next
    case (Some i)
    obtain p rest where p: "strtol10 (drop (i + 1) s) = (p, rest)"
      by (cases "strtol10 (drop (i + 1) s)") auto
    show thesis
    proof (cases "pton (take i s)")
      case None
      with assms Some \<open>input = Some s\<close> show thesis by (simp add: parse_cidr_def)
    next
      case (Some a)
      with assms \<open>input = Some s\<close> \<open>find_char CHR ''/'' s = Some i\<close>
        parse_cidr_slash [where pton = pton and s = s and i = i and a = a and p = p and rest = rest,
          OF _ _ p]
      have "0 \<le> p \<and> p \<le> 32 \<and> (b, c) = cidr_block (ntohl a) (nat p)"
        by (simp split: if_splits)
      with Some \<open>input = Some s\<close> \<open>find_char CHR ''/'' s = Some i\<close> show thesis
        by (intro block [of s i a "nat p"]) auto
    qed
  qed
qed

lemma unat_cidr_count: "0 < p \<Longrightarrow> unat (snd (cidr_block a p)) = 2 ^ (32 - p)"
proof -
  assume "0 < p"
  then have "(2::nat) ^ (32 - p) < 2 ^ 32" by (intro power_strict_increasing) auto
  then show ?thesis by (simp add: cidr_block_def unat_of_nat del: of_nat_power)
qed

lemma cidr_count_0: "snd (cidr_block a 0) = 0" and cidr_base_0: "fst (cidr_block a 0) = 0"
  using unat_u32_lt [of a] by (simp_all add: cidr_block_def)

lemma unat_cidr_base: "unat (fst (cidr_block a p)) = unat a div 2 ^ (32 - p) * 2 ^ (32 - p)"
proof -
  have "unat a - unat a mod 2 ^ (32 - p) < 2 ^ 32" using unat_u32_lt [of a] by simp
  then have "unat (fst (cidr_block a p)) = unat a - unat a mod 2 ^ (32 - p)"
    by (simp add: cidr_block_def unat_of_nat del: of_nat_diff)
  then show ?thesis by (simp add: minus_mod_eq_div_mult)
qed

lemma cidr_block_bounds:
  assumes p: "0 < p" "p \<le> 32" and bc: "cidr_block a p = (b, c)"
  shows "unat b + unat c \<le> 2 ^ 32" and "unat c \<le> 2 ^ 31" and "c \<noteq> 0"
    and "unat b \<le> unat a" and "unat a < unat b + unat c"
proof -
  define k where "k = 32 - p"
  have k: "k \<le> 31" and pk: "(2::nat) ^ 32 = 2 ^ p * 2 ^ k"
    using p by (simp_all add: k_def flip: power_add)
  have c: "unat c = 2 ^ k" using unat_cidr_count [OF p(1), of a] bc by (simp add: k_def)
  have b: "unat b = unat a div 2 ^ k * 2 ^ k" using unat_cidr_base [of a p] bc by (simp add: k_def)
  show "unat c \<le> 2 ^ 31" using power_increasing [OF k, of "2 :: nat"] by (simp add: c)
  show "c \<noteq> 0" using c by auto
  have "unat a div 2 ^ k < 2 ^ p"
    using unat_u32_lt [of a] pk by (simp add: less_mult_imp_div_less)
  then have "(unat a div 2 ^ k + 1) * 2 ^ k \<le> 2 ^ p * 2 ^ k" by (intro mult_le_mono1) simp
  then have "unat a div 2 ^ k * 2 ^ k + 2 ^ k \<le> 2 ^ 32" unfolding pk by simp
  then show "unat b + unat c \<le> 2 ^ 32" by (simp only: b c)
  show "unat b \<le> unat a" by (simp add: b)
  show "unat a < unat b + unat c"
    by (simp add: b c) (metis add.commute dividend_less_div_times mult.commute zero_less_numeral zero_less_power)
qed

text \<open>What a caller of the text interface gets: printing and parsing are inverse.\<close>

context inet_text begin

lemma parse_cidr_ntop:
  "parse_cidr pton (Some (ntop (htonl a) @ CHR ''/'' # dec_string p))
    = (if p \<le> 32 then Some (cidr_block a p) else None)"
proof -
  have t: "strtol10 (dec_string p) = (min (int p) LONG_MAX, [])"
    using strtol10_dec [of "[]" p] by simp
  show ?thesis
    by (subst parse_cidr_slash [OF find_slash_after])
      (auto simp: pton_ntop t dec_string_nonempty LONG_MAX_def)
qed

lemma parse_cidr_host: "parse_cidr pton (Some (ntop (htonl a))) = Some (a, 1)"
  by (simp add: parse_cidr_no_slash [OF find_slash_none] pton_ntop)

lemma format_ip_parse:
  "parse_cidr pton (Some (format_ip ntop a buf INET_ADDRSTRLEN)) = Some (a, 1)"
  by (simp add: format_ip_def inet_ntop_into_def INET_ADDRSTRLEN_def ntop_fits parse_cidr_host)

end

section \<open>The local interface: lemmas\<close>

text \<open>
  What the walk returns: nothing, or the description of the routing address's interface, with
  the subnet around that address and the overlap flag.
\<close>

definition subnet_of :: "u32 \<Rightarrow> u32 \<Rightarrow> u32 \<Rightarrow> NetworkInterface \<Rightarrow> bool" where
  "subnet_of local_ip target_base_ip target_end_ip i \<longleftrightarrow>
     ip_address i = local_ip \<and> network_ip i \<le> local_ip \<and> local_ip \<le> broadcast_ip i \<and>
     (is_local i \<longleftrightarrow> target_base_ip \<le> broadcast_ip i \<and> network_ip i \<le> target_end_ip)"

lemma and_mask_le: "(x :: 'a::len word) AND m \<le> x"
  by (rule word_and_le2)

lemma find_interface_cases:
  "find_interface ntop l tb te ifs = no_interface \<or>
   subnet_of l tb te (find_interface ntop l tb te ifs)"
proof (induction ntop l tb te ifs rule: find_interface.induct)
  case (1 ntop l tb te)
  then show ?case by simp
next
  case (2 ntop l tb te ifa rest)
  then show ?case
    by (auto simp: Let_def subnet_of_def and_mask_le le_word_or2 split: option.splits)
qed

lemma intervals_meet:
  fixes a b c d :: "'a::linorder"
  assumes "a \<le> b" and "c \<le> d"
  shows "a \<le> d \<and> c \<le> b \<longleftrightarrow> (\<exists>t. a \<le> t \<and> t \<le> b \<and> c \<le> t \<and> t \<le> d)"
proof
  assume "a \<le> d \<and> c \<le> b"
  with assms have "a \<le> max a c \<and> max a c \<le> b \<and> c \<le> max a c \<and> max a c \<le> d" by simp
  then show "\<exists>t. a \<le> t \<and> t \<le> b \<and> c \<le> t \<and> t \<le> d" by blast
qed auto

lemma fetch_cases:
  assumes "fetch os tb n w = (i, w')"
  shows "i = no_interface \<or>
    (\<exists>l. subnet_of l tb (if n = 0 then tb else tb + (n - 1)) i)"
  using assms find_interface_cases
  by (auto simp: fetch_def Let_def split: prod.splits if_splits) blast+

lemma fetch_led: "fetch os tb n w = (i, w') \<Longrightarrow> led w' = led w"
  by (auto simp: fetch_def Let_def dest!: led_dests split: prod.splits if_splits)

lemma block_end:
  fixes b c :: u32
  assumes "unat b + unat c \<le> 2 ^ 32" and "c \<noteq> 0"
  shows "unat (b + (c - 1)) = unat b + unat c - 1" and "b \<le> b + (c - 1)"
proof -
  have c: "unat (c - 1) = unat c - 1" "unat c \<noteq> 0"
    using assms(2) by (simp_all add: unat_minus_one unat_eq_0)
  show "unat (b + (c - 1)) = unat b + unat c - 1"
    using assms(1) c by (subst unat_add_lem [THEN iffD1]) auto
  then show "b \<le> b + (c - 1)" using c(2) by (simp add: word_le_nat_alt)
qed

end
