(* ===== verification/Scanner_Base.thy ===== *)
theory Scanner_Base
  imports Utils
begin

text \<open>
  What the two scanners have in common. \<^verbatim>\<open>PingScanner\<close> and \<^verbatim>\<open>TcpScanner\<close> declare their own
  \<^verbatim>\<open>ProbeInfo\<close>, result and configuration structs; the shared fields are base records here, which
  the scanners extend. The elapsed-time expression, which both write out twice, is \<open>diff_ns\<close>.

  The interface \<open>slot_search\<close> is what a scanner needs from its search for a free probe slot, and
  its lemmas are the bookkeeping of the table: an occupied slot is one more active probe, a
  cleared slot one less.
\<close>

section \<open>Shared records\<close>

record probe =
  active :: bool
  dest_ip :: u32
  send_time :: timespec

record scanner =
  base_ip :: u32
  total_hosts :: size_t
  network_interface :: NetworkInterface
  max_probes :: size_t
  timeout_ms :: u32
  resolve_dns :: bool
  has_callback :: bool
  epoll_fd :: int

record host_result =
  ip :: u32
  ip_str :: string
  hostname :: string
  rtt_ms :: rat

section \<open>Casts and elapsed time\<close>

text \<open>\<^verbatim>\<open>static_cast<int>\<close> of an unsigned value keeps the low 32 bits and reads them signed.\<close>

definition cast_int :: "nat \<Rightarrow> int" where
  "cast_int n = sint (word_of_nat n :: u32)"

lemma cast_int_small [simp]: "n < 2 ^ 31 \<Longrightarrow> cast_int n = int n"
proof -
  assume n: "n < 2 ^ 31"
  then have "uint (word_of_nat n :: u32) = int n"
    by (simp add: unsigned_of_nat take_bit_nat_eq_self)
  with n show ?thesis
    by (simp add: cast_int_def sint_uint signed_take_bit_int_eq_self)
qed

text \<open>
  \<^verbatim>\<open>(now.tv_sec - t.tv_sec) * NANOSECONDS_PER_SECOND_LL + (now.tv_nsec - t.tv_nsec)\<close> in
  \<^verbatim>\<open>int64_t\<close>, each operation checked.
\<close>

definition diff_ns :: "timespec \<Rightarrow> timespec \<Rightarrow> int option" where
  "diff_ns now t = do {
     ds \<leftarrow> chk64 (tv_sec now - tv_sec t);
     m \<leftarrow> chk64 (ds * NANOSECONDS_PER_SECOND_LL);
     dn \<leftarrow> chk64 (tv_nsec now - tv_nsec t);
     chk64 (m + dn)
   }"

text \<open>Clock readings the kernel gives: seconds since 1970 up to the year 2242, proper nanoseconds.\<close>

definition clock_ok :: "timespec \<Rightarrow> bool" where
  "clock_ok t \<longleftrightarrow> 0 \<le> tv_sec t \<and> tv_sec t < 2 ^ 33 \<and> 0 \<le> tv_nsec t \<and> tv_nsec t < NANOSECONDS_PER_SECOND_LL"

definition ns_of :: "timespec \<Rightarrow> int" where
  "ns_of t = tv_sec t * NANOSECONDS_PER_SECOND_LL + tv_nsec t"

lemma diff_ns_exact:
  assumes "clock_ok now" and "clock_ok t"
  shows "diff_ns now t = Some (ns_of now - ns_of t)"
  using assms
  by (auto simp: diff_ns_def clock_ok_def ns_of_def fits64_def chk64_def
      NANOSECONDS_PER_SECOND_LL_def algebra_simps)

text \<open>
  \<^verbatim>\<open>std::max(0.0, static_cast<double>(diff_ns) / 1000000.0)\<close>, as an exact rational: the
  rounding of \<^verbatim>\<open>double\<close> is left out.
\<close>

definition rtt_of :: "int \<Rightarrow> rat" where
  "rtt_of d = max 0 (of_int d / of_int NANOSECONDS_PER_MILLISECOND_LL)"

lemma rtt_of_nonneg: "0 \<le> rtt_of d"
  by (simp add: rtt_of_def)

definition timeout_ns :: "u32 \<Rightarrow> int" where
  "timeout_ns ms = uint ms * NANOSECONDS_PER_MILLISECOND_LL"

lemma timeout_ns_fits: "fits64 (timeout_ns ms)" "0 \<le> timeout_ns ms"
proof -
  show nonneg: "0 \<le> timeout_ns ms"
    by (simp add: timeout_ns_def NANOSECONDS_PER_MILLISECOND_LL_def)
  have "timeout_ns ms < 2 ^ 63"
    using uint_u32_lt [of ms] by (simp add: timeout_ns_def NANOSECONDS_PER_MILLISECOND_LL_def)
  moreover have "- (2 ^ 63) \<le> timeout_ns ms"
    using nonneg by (rule order_trans [rotated]) simp
  ultimately show "fits64 (timeout_ns ms)" by (simp add: fits64_def)
qed

section \<open>Counting active probes\<close>

definition count_active :: "'a probe_scheme list \<Rightarrow> nat" where
  "count_active t = length (filter active t)"

lemma count_active_update:
  assumes "i < length t"
  shows "count_active (t[i := p]) + (if active (t ! i) then 1 else 0)
    = count_active t + (if active p then 1 else 0)"
  using assms unfolding count_active_def
proof (induction t arbitrary: i)
  case Nil
  then show ?case by simp
next
  case (Cons x t)
  then show ?case by (cases i) auto
qed

lemma count_active_le: "count_active t \<le> length t"
  by (simp add: count_active_def)

lemma count_active_0: "count_active t = 0 \<longleftrightarrow> (\<forall>i<length t. \<not> active (t ! i))"
  by (auto simp: count_active_def filter_empty_conv all_set_conv_all_nth)

lemma count_active_pos: "i < length t \<Longrightarrow> active (t ! i) \<Longrightarrow> 0 < count_active t"
  using count_active_0 [of t] by auto

lemma count_active_occupy:
  "i < length t \<Longrightarrow> \<not> active (t ! i) \<Longrightarrow> active p \<Longrightarrow> count_active (t[i := p]) = Suc (count_active t)"
  using count_active_update [of i t p] by simp

lemma count_active_clear:
  "i < length t \<Longrightarrow> active (t ! i) \<Longrightarrow> \<not> active p \<Longrightarrow> count_active (t[i := p]) = count_active t - 1"
  using count_active_update [of i t p] by simp

section \<open>The search for a free slot\<close>

locale slot_search =
  fixes search :: "'a probe_scheme list \<Rightarrow> int"
  assumes search_none: "length t < 2 ^ 31 \<Longrightarrow> search t < 0 \<longleftrightarrow> (\<forall>i<length t. active (t ! i))"
    and search_some: "length t < 2 ^ 31 \<Longrightarrow> 0 \<le> search t \<Longrightarrow>
      nat (search t) < length t \<and> \<not> active (t ! nat (search t)) \<and>
      (\<forall>j<nat (search t). active (t ! j))"
begin

lemma search_finds:
  assumes "length t < 2 ^ 31" and "count_active t < length t"
  shows "0 \<le> search t"
proof (rule ccontr)
  assume "\<not> 0 \<le> search t"
  then have "\<forall>i<length t. active (t ! i)" using search_none [OF assms(1)] by simp
  then have "filter active t = t" by (auto simp: filter_id_conv in_set_conv_nth)
  with assms(2) show False by (simp add: count_active_def)
qed

lemma occupy_count:
  assumes "length t < 2 ^ 31" and "0 \<le> search t" and "active p"
  shows "count_active (t[nat (search t) := p]) = Suc (count_active t)"
  using search_some [OF assms(1,2)] assms(3) by (simp add: count_active_occupy)

end

text \<open>
  The loop over the table that both scanners have: the index of the first slot that is not active,
  or \<open>-1\<close>.
\<close>

fun find_slot_from :: "nat \<Rightarrow> 'a probe_scheme list \<Rightarrow> int" where
  "find_slot_from i [] = -1"
| "find_slot_from i (p # ps) = (if \<not> active p then cast_int i else find_slot_from (Suc i) ps)"

lemma find_slot_from_bounds:
  "i + length t < 2 ^ 31 \<Longrightarrow> find_slot_from i t = -1 \<and> (\<forall>j<length t. active (t ! j)) \<or>
    (\<exists>j<length t. find_slot_from i t = int (i + j) \<and> \<not> active (t ! j) \<and> (\<forall>k<j. active (t ! k)))"
proof (induction i t rule: find_slot_from.induct)
  case (1 i)
  then show ?case by simp
next
  case (2 i p ps)
  show ?case
  proof (cases "active p")
    case False
    then show ?thesis using "2.prems" by auto
  next
    case True
    have eq: "find_slot_from i (p # ps) = find_slot_from (Suc i) ps" using True by simp
    have "Suc i + length ps < 2 ^ 31" using "2.prems" by simp
    then consider (none) "find_slot_from (Suc i) ps = -1" "\<forall>j<length ps. active (ps ! j)"
      | (some) j where "j < length ps" "find_slot_from (Suc i) ps = int (Suc i + j)"
          "\<not> active (ps ! j)" "\<forall>k<j. active (ps ! k)"
      using "2.IH" True by blast
    then show ?thesis
    proof cases
      case none
      then show ?thesis using True eq by (auto simp: less_Suc_eq_0_disj)
    next
      case some
      then show ?thesis using True eq
        by (intro disjI2 exI [of _ "Suc j"]) (auto simp: less_Suc_eq_0_disj)
    qed
  qed
qed

interpretation slots: slot_search "find_slot_from 0"
proof
  fix t :: "'a probe_scheme list"
  assume "length t < 2 ^ 31"
  then have *: "find_slot_from 0 t = -1 \<and> (\<forall>j<length t. active (t ! j)) \<or>
    (\<exists>j<length t. find_slot_from 0 t = int j \<and> \<not> active (t ! j) \<and> (\<forall>k<j. active (t ! k)))"
    using find_slot_from_bounds [of 0 t] by simp
  then show "find_slot_from 0 t < 0 \<longleftrightarrow> (\<forall>i<length t. active (t ! i))" by auto
  show "nat (find_slot_from 0 t) < length t \<and> \<not> active (t ! nat (find_slot_from 0 t)) \<and>
      (\<forall>j<nat (find_slot_from 0 t). active (t ! j))" if "0 \<le> find_slot_from 0 t"
    using * that by auto
qed

section \<open>The target addresses\<close>

text \<open>
  Host number \<open>h\<close> of a scan is \<open>base + h\<close>. A well-formed scanner has its block inside the
  32-bit address space, and small enough for \<^verbatim>\<open>int\<close> host indices.
\<close>

definition host_ip :: "'a scanner_scheme \<Rightarrow> nat \<Rightarrow> u32" where
  "host_ip s h = base_ip s + word_of_nat h"

definition scanner_ok :: "'a scanner_scheme \<Rightarrow> bool" where
  "scanner_ok s \<longleftrightarrow> unat (base_ip s) + total_hosts s \<le> 2 ^ 32 \<and> total_hosts s \<le> 2 ^ 31 \<and>
     max_probes s < 2 ^ 31 \<and> max_probes s \<le> total_hosts s"

definition in_range :: "'a scanner_scheme \<Rightarrow> u32 \<Rightarrow> bool" where
  "in_range s a \<longleftrightarrow> unat (base_ip s) \<le> unat a \<and> unat a < unat (base_ip s) + total_hosts s"

lemma unat_host_ip:
  assumes "scanner_ok s" and "h < total_hosts s"
  shows "unat (host_ip s h) = unat (base_ip s) + h"
  using assms by (simp add: host_ip_def scanner_ok_def unat_word_ariths unat_of_nat)

lemma host_ip_inj:
  assumes "scanner_ok s" and "h < total_hosts s" and "k < total_hosts s"
  shows "host_ip s h = host_ip s k \<longleftrightarrow> h = k"
  using unat_host_ip [OF assms(1,2)] unat_host_ip [OF assms(1,3)] by (metis add_left_cancel)

lemma host_ip_in_range: "scanner_ok s \<Longrightarrow> h < total_hosts s \<Longrightarrow> in_range s (host_ip s h)"
  by (simp add: in_range_def unat_host_ip)

lemma in_range_host_ip:
  assumes "in_range s a"
  shows "a = host_ip s (unat a - unat (base_ip s))"
proof -
  have "base_ip s \<le> a" using assms by (simp add: in_range_def word_le_nat_alt)
  then have "word_of_nat (unat a - unat (base_ip s)) = a - base_ip s"
    by (simp add: of_nat_diff word_le_nat_alt)
  then show ?thesis by (simp add: host_ip_def)
qed

text \<open>The addresses the scanners leave out: network and broadcast of an overlapping local subnet.\<close>

definition skipped :: "'a scanner_scheme \<Rightarrow> u32 \<Rightarrow> bool" where
  "skipped s a \<longleftrightarrow> is_local (network_interface s) \<and>
     (a = network_ip (network_interface s) \<or> a = broadcast_ip (network_interface s))"

lemma diff_ns_fits: "diff_ns now t = Some d \<Longrightarrow> fits64 d"
  by (auto simp: diff_ns_def split: bind_splits)

lemma count_active_all:
  assumes "\<forall>i<length t. active (t ! i)"
  shows "count_active t = length t"
  using assms by (simp add: count_active_def all_set_conv_all_nth filter_True)

end
