(* ===== verification/Ping_Packet.thy ===== *)
theory Ping_Packet
  imports Scanner_Base
begin

text \<open>
  The wire format of the ping scanner: \<^verbatim>\<open>IcmpHdr\<close> and \<^verbatim>\<open>PingPayload\<close> of
  \<^verbatim>\<open>include/ping_scanner.hpp\<close> as the bytes \<^verbatim>\<open>memcpy\<close> moves, on a little-endian host with 8-byte
  alignment of \<^verbatim>\<open>int64_t\<close>. Each is a \<open>codec\<close>, and so is a header followed by a payload, by the
  sublocale of \<open>codec_pair\<close>.

  The four bytes between \<^verbatim>\<open>target_ip\<close> and \<^verbatim>\<open>send_sec\<close> are padding: no initialiser of the source
  sets them, so they are a parameter, the word \<open>pad\<close>.
\<close>

record IcmpHdr =
  icmp_type :: u8
  icmp_code :: u8
  icmp_checksum :: u16
  icmp_id :: u16
  icmp_sequence :: u16

record PingPayload =
  target_ip :: u32
  send_sec :: u64
  send_nsec :: u64

definition ICMP_ECHOREPLY :: u8 where "ICMP_ECHOREPLY = 0"
definition ICMP_ECHO :: u8 where "ICMP_ECHO = 8"

definition sizeof_IcmpHdr :: size_t where "sizeof_IcmpHdr = 8"
definition sizeof_PingPayload :: size_t where "sizeof_PingPayload = 24"

definition put_IcmpHdr :: "IcmpHdr \<Rightarrow> u8 list" where
  "put_IcmpHdr h =
     put_u8 (icmp_type h) @ put_u8 (icmp_code h) @ put_u16 (icmp_checksum h) @
     put_u16 (icmp_id h) @ put_u16 (icmp_sequence h)"

definition get_IcmpHdr :: "u8 list \<Rightarrow> IcmpHdr" where
  "get_IcmpHdr bs =
     \<lparr>icmp_type = get_u8 (take 1 bs), icmp_code = get_u8 (take 1 (drop 1 bs)),
      icmp_checksum = get_u16 (take 2 (drop 2 bs)), icmp_id = get_u16 (take 2 (drop 4 bs)),
      icmp_sequence = get_u16 (take 2 (drop 6 bs))\<rparr>"

definition put_PingPayload :: "u32 \<Rightarrow> PingPayload \<Rightarrow> u8 list" where
  "put_PingPayload pad p =
     put_u32 (target_ip p) @ put_u32 pad @ put_u64 (send_sec p) @ put_u64 (send_nsec p)"

definition get_PingPayload :: "u8 list \<Rightarrow> PingPayload" where
  "get_PingPayload bs =
     \<lparr>target_ip = get_u32 (take 4 bs), send_sec = get_u64 (take 8 (drop 8 bs)),
      send_nsec = get_u64 (take 8 (drop 16 bs))\<rparr>"

lemmas int_codec_lengths [simp] =
  c8.length_enc c16.length_enc c32.length_enc c64.length_enc

lemmas int_codec_decs [simp] = c8.dec_enc c16.dec_enc c32.dec_enc c64.dec_enc

interpretation hdr: codec put_IcmpHdr get_IcmpHdr sizeof_IcmpHdr
  by unfold_locales (simp_all add: put_IcmpHdr_def get_IcmpHdr_def sizeof_IcmpHdr_def)

interpretation payload: codec "put_PingPayload pad" get_PingPayload sizeof_PingPayload for pad
  by unfold_locales (simp_all add: put_PingPayload_def get_PingPayload_def sizeof_PingPayload_def)

interpretation echo: codec_pair put_IcmpHdr get_IcmpHdr sizeof_IcmpHdr
    "put_PingPayload pad" get_PingPayload sizeof_PingPayload for pad
  by unfold_locales

text \<open>
  What the receiver reads at offset 0 and at offset 8 of a datagram that starts with a header and
  a payload.
\<close>

lemma get_echo:
  "get_IcmpHdr (take sizeof_IcmpHdr (put_IcmpHdr h @ put_PingPayload pad p @ rest)) = h"
  "get_PingPayload (take sizeof_PingPayload
     (drop sizeof_IcmpHdr (put_IcmpHdr h @ put_PingPayload pad p @ rest))) = p"
  by (simp_all only: hdr.dec_prefix hdr.rest_after payload.dec_prefix)

text \<open>The filler the source appends: digit values, not letters.\<close>

definition filler :: "size_t \<Rightarrow> u8 list" where
  "filler n = map (\<lambda>i. word_of_nat (size_add i PAYLOAD_CHAR_MOD mod PAYLOAD_CHAR_OFFSET)) [0..<n]"

lemma length_filler [simp]: "length (filler n) = n"
  by (simp add: filler_def)

end
