(* ===== verification/Ping_State.thy ===== *)
theory Ping_State
  imports Ping_Packet
begin

text \<open>
  The ping scanner's data (\<^verbatim>\<open>include/ping_scanner.hpp\<close>), its constructor's member initialisers and
  buffers, and the operations on its two tables (\<^verbatim>\<open>src/ping_scanner.cpp\<close>): \<open>probe_table\<close>, the
  slots, and \<open>host_to_probe\<close>, which gives for every host of the block the slot that probes it, or
  \<open>-1\<close>. The fields the constructor fixes are the record \<open>ping_scanner\<close>; the fields \<^verbatim>\<open>run()\<close>
  changes, together with its local variables (passed by reference to every method) and the
  world, are \<open>ping_state\<close>.

  \<open>table_inv\<close> says that the two tables agree; every change the scanner makes to them is one of
  two moves, \<open>occupy\<close> and \<open>vacate\<close>, which keep it.
\<close>

section \<open>Data\<close>

record PingHostResult = host_result +
  ttl :: int

record PingScanResult =
  hosts :: "PingHostResult list"
  total_tx_drops :: u32
  total_rx_queue_overflows :: u32
  total_echo_replies :: u32
  total_unmatched_replies :: u32
  total_probe_timeouts :: u32

record PingScannerConfig =
  cfg_base_ip :: u32
  cfg_total_hosts :: size_t
  cfg_payload_len :: size_t
  cfg_max_probes :: size_t
  cfg_timeout_ms :: u32
  cfg_send_batch_size :: size_t
  cfg_recv_batch_size :: size_t
  cfg_resolve_dns :: bool
  cfg_result_callback :: bool

record ping_probe = probe +
  seq_no :: u16

record ping_scanner = scanner +
  payload_len :: size_t
  send_batch_size :: size_t
  recv_batch_size :: size_t
  packet_buffer_size :: size_t
  sock :: int

record 'w ping_state =
  tx_drops :: u32
  rx_queue_overflows :: u32
  echo_replies :: u32
  unmatched_replies :: u32
  probe_timeouts :: u32
  probe_table :: "ping_probe list"
  host_to_probe :: "int list"
  found_ips_cache :: "u32 list"
  send_packets :: "u8 list"
  send_addrs :: "u32 list"
  send_iovs :: "(nat \<times> nat) list"
  send_msgvec :: "nat option list"
  send_probe_slots :: "int list"
  next_host_idx :: size_t
  active_probes :: size_t
  hosts_found :: size_t
  next_seq :: u16
  scan_results :: "PingHostResult list"
  reported :: "PingHostResult list"
  world :: "'w world"

definition ProbeInfo_init :: ping_probe where
  "ProbeInfo_init =
     \<lparr>active = False, dest_ip = 0, send_time = \<lparr>tv_sec = 0, tv_nsec = 0\<rparr>, seq_no = 0\<rparr>"

section \<open>Construction\<close>

text \<open>
  The member initialisers. The socket and epoll descriptors start at \<open>-1\<close>; the constructor's body
  sets them (theory \<open>Ping_Socket\<close>).
\<close>

definition ping_members :: "PingScannerConfig \<Rightarrow> NetworkInterface \<Rightarrow> ping_scanner" where
  "ping_members config ni =
     \<lparr>base_ip = cfg_base_ip config,
      total_hosts = cfg_total_hosts config,
      network_interface = ni,
      max_probes = min (cfg_max_probes config) (cfg_total_hosts config),
      timeout_ms = cfg_timeout_ms config,
      resolve_dns = cfg_resolve_dns config,
      has_callback = cfg_result_callback config,
      epoll_fd = -1,
      payload_len = cfg_payload_len config,
      send_batch_size = safe_batch_size (cfg_send_batch_size config) (cfg_total_hosts config),
      recv_batch_size = safe_batch_size (cfg_recv_batch_size config) (cfg_total_hosts config),
      packet_buffer_size =
        size_add (size_add sizeof_IcmpHdr sizeof_PingPayload) (cfg_payload_len config),
      sock = -1\<rparr>"

definition send_count :: "ping_scanner \<Rightarrow> size_t" where
  "send_count s = max 1 (send_batch_size s)"

definition initialize_buffers :: "ping_scanner \<Rightarrow> 'w world \<Rightarrow> 'w ping_state" where
  "initialize_buffers s w =
     \<lparr>tx_drops = 0, rx_queue_overflows = 0, echo_replies = 0, unmatched_replies = 0,
      probe_timeouts = 0,
      probe_table = replicate (max_probes s) ProbeInfo_init,
      host_to_probe = replicate (total_hosts s) (-1),
      found_ips_cache = [],
      send_packets = replicate (size_mul (packet_buffer_size s) (send_count s)) 0,
      send_addrs = replicate (send_count s) 0,
      send_iovs = replicate (send_count s) (0, 0),
      send_msgvec = replicate (send_count s) None,
      send_probe_slots = replicate (send_count s) (-1),
      next_host_idx = 0, active_probes = 0, hosts_found = 0, next_seq = 1,
      scan_results = [], reported = [], world = w\<rparr>"

text \<open>What \<^verbatim>\<open>run()\<close> does before its loop: all results and tables of an earlier run are dropped.\<close>

definition run_reset :: "ping_scanner \<Rightarrow> 'w ping_state \<Rightarrow> 'w ping_state" where
  "run_reset s st = st\<lparr>
     probe_table := map (\<lambda>_. ProbeInfo_init) (probe_table st),
     host_to_probe := map (\<lambda>_. -1) (host_to_probe st),
     found_ips_cache := [],
     tx_drops := 0, rx_queue_overflows := 0, echo_replies := 0, unmatched_replies := 0,
     probe_timeouts := 0,
     next_host_idx := 0, active_probes := 0, hosts_found := 0, next_seq := 1,
     scan_results := [], reported := []\<rparr>"

section \<open>Lookups\<close>

definition find_available_probe_slot :: "'w ping_state \<Rightarrow> int" where
  "find_available_probe_slot st = find_slot_from 0 (probe_table st)"

definition host_index_for_ip :: "ping_scanner \<Rightarrow> u32 \<Rightarrow> int" where
  "host_index_for_ip s a =
     (if a < base_ip s then -1
      else let index = a - base_ip s
           in if unat index \<ge> total_hosts s then -1 else cast_int (unat index))"

definition is_host_found :: "'w ping_state \<Rightarrow> u32 \<Rightarrow> bool" where
  "is_host_found st a \<longleftrightarrow> a \<in> set (found_ips_cache st)"

text \<open>The next sequence number; zero is left out when the 16-bit counter wraps.\<close>

definition allocate_sequence :: "u16 \<Rightarrow> u16 \<times> u16" where
  "allocate_sequence next =
     (let candidate = (if next = 0 then 1 else next);
          n = candidate + 1
      in (candidate, if n = 0 then 1 else n))"

section \<open>Releasing a slot\<close>

definition release_probe_slot :: "ping_scanner \<Rightarrow> int \<Rightarrow> 'w ping_state \<Rightarrow> 'w ping_state" where
  "release_probe_slot s slot st =
     (if slot < 0 \<or> nat slot \<ge> length (probe_table st) then st
      else
        let p = probe_table st ! nat slot in
        if \<not> active p then st
        else
          let host_idx = host_index_for_ip s (dest_ip p);
              h2p = (if host_idx \<ge> 0 \<and> host_to_probe st ! nat host_idx = slot
                     then (host_to_probe st)[nat host_idx := -1] else host_to_probe st)
          in st\<lparr>host_to_probe := h2p,
                probe_table := (probe_table st)[nat slot := p\<lparr>active := False\<rparr>],
                active_probes := (if active_probes st > 0 then active_probes st - 1 else 0)\<rparr>)"

section \<open>The two moves\<close>

definition host_no :: "ping_scanner \<Rightarrow> u32 \<Rightarrow> nat" where
  "host_no s a = unat a - unat (base_ip s)"

definition occupy :: "nat \<Rightarrow> nat \<Rightarrow> ping_probe \<Rightarrow> 'w ping_state \<Rightarrow> 'w ping_state" where
  "occupy i h p st = st\<lparr>
     probe_table := (probe_table st)[i := p],
     host_to_probe := (host_to_probe st)[h := int i],
     active_probes := Suc (active_probes st)\<rparr>"

definition vacate :: "ping_scanner \<Rightarrow> nat \<Rightarrow> 'w ping_state \<Rightarrow> 'w ping_state" where
  "vacate s i st =
     (let p = probe_table st ! i in st\<lparr>
        host_to_probe := (host_to_probe st)[host_no s (dest_ip p) := -1],
        probe_table := (probe_table st)[i := p\<lparr>active := False\<rparr>],
        active_probes := active_probes st - 1\<rparr>)"

text \<open>
  The tables agree: an active slot is the slot of the host it probes, a host's entry is \<open>-1\<close> or an
  active slot probing it, and the count of active probes is right.
\<close>

definition table_inv :: "ping_scanner \<Rightarrow> 'w ping_state \<Rightarrow> bool" where
  "table_inv s st \<longleftrightarrow>
     length (probe_table st) = max_probes s \<and>
     length (host_to_probe st) = total_hosts s \<and>
     active_probes st = count_active (probe_table st) \<and>
     (\<forall>i<max_probes s. active (probe_table st ! i) \<longrightarrow>
        in_range s (dest_ip (probe_table st ! i)) \<and>
        host_to_probe st ! host_no s (dest_ip (probe_table st ! i)) = int i) \<and>
     (\<forall>h<total_hosts s. host_to_probe st ! h = -1 \<or>
        (\<exists>i<max_probes s. host_to_probe st ! h = int i \<and> active (probe_table st ! i) \<and>
           dest_ip (probe_table st ! i) = host_ip s h))"

text \<open>The addresses with a probe in flight.\<close>

definition inflight :: "'w ping_state \<Rightarrow> u32 set" where
  "inflight st = dest_ip ` {p \<in> set (probe_table st). active p}"

lemma finite_inflight [simp]: "finite (inflight st)"
  by (simp add: inflight_def)

lemma inflight_nth:
  "inflight st = {dest_ip (probe_table st ! i) |i. i < length (probe_table st) \<and> active (probe_table st ! i)}"
  by (fastforce simp: inflight_def in_set_conv_nth)

section \<open>Lemmas: lookups\<close>

lemma host_index_for_ip_eq:
  assumes "scanner_ok s"
  shows "host_index_for_ip s a = (if in_range s a then int (host_no s a) else -1)"
proof (cases "a < base_ip s")
  case True
  then show ?thesis by (simp add: host_index_for_ip_def in_range_def word_less_nat_alt)
next
  case False
  then have le: "unat (base_ip s) \<le> unat a" using False by (simp add: word_less_nat_alt)
  then have "unat (a - base_ip s) = host_no s a"
    by (simp add: host_no_def unat_sub word_le_nat_alt)
  moreover have "host_no s a < 2 ^ 31" if "host_no s a < total_hosts s"
    using that assms by (simp add: scanner_ok_def)
  ultimately show ?thesis
    using False le assms
    by (auto simp: host_index_for_ip_def in_range_def host_no_def)
qed

lemma host_no_less: "in_range s a \<Longrightarrow> host_no s a < total_hosts s"
  by (auto simp: in_range_def host_no_def)

lemma host_ip_host_no: "in_range s a \<Longrightarrow> host_ip s (host_no s a) = a"
  using in_range_host_ip [of s a] by (simp add: host_no_def)

lemma host_no_host_ip: "scanner_ok s \<Longrightarrow> h < total_hosts s \<Longrightarrow> host_no s (host_ip s h) = h"
  by (simp add: host_no_def unat_host_ip)

lemma allocate_sequence_nonzero:
  "fst (allocate_sequence n) \<noteq> 0" "snd (allocate_sequence n) \<noteq> 0"
  by (auto simp: allocate_sequence_def Let_def)

section \<open>Lemmas: the moves keep the tables in agreement\<close>

lemma table_invD:
  assumes "table_inv s st"
  shows "length (probe_table st) = max_probes s" "length (host_to_probe st) = total_hosts s"
    "active_probes st = count_active (probe_table st)"
  using assms by (auto simp: table_inv_def)

lemma table_inv_slot:
  assumes "table_inv s st" "i < max_probes s" "active (probe_table st ! i)"
  shows "in_range s (dest_ip (probe_table st ! i))"
    "host_to_probe st ! host_no s (dest_ip (probe_table st ! i)) = int i"
  using assms by (auto simp: table_inv_def)

lemma table_inv_host:
  assumes "table_inv s st" "h < total_hosts s" "host_to_probe st ! h \<noteq> -1"
  obtains i where "i < max_probes s" "host_to_probe st ! h = int i" "active (probe_table st ! i)"
    "dest_ip (probe_table st ! i) = host_ip s h"
  using assms by (auto simp: table_inv_def)

lemma table_inv_inj:
  assumes "table_inv s st" "i < max_probes s" "j < max_probes s"
    and "active (probe_table st ! i)" "active (probe_table st ! j)"
    and "dest_ip (probe_table st ! i) = dest_ip (probe_table st ! j)"
  shows "i = j"
proof -
  have "int i = int j"
    using table_inv_slot(2) [OF assms(1,2,4)] table_inv_slot(2) [OF assms(1,3,5)]
    unfolding assms(6) by (rule trans [OF sym])
  then show ?thesis by simp
qed

lemma occupy_fields [simp]:
  "probe_table (occupy i h p st) = (probe_table st)[i := p]"
  "host_to_probe (occupy i h p st) = (host_to_probe st)[h := int i]"
  "active_probes (occupy i h p st) = Suc (active_probes st)"
  by (simp_all add: occupy_def)

lemma vacate_fields [simp]:
  "probe_table (vacate s i st) = (probe_table st)[i := (probe_table st ! i)\<lparr>active := False\<rparr>]"
  "host_to_probe (vacate s i st) =
     (host_to_probe st)[host_no s (dest_ip (probe_table st ! i)) := -1]"
  "active_probes (vacate s i st) = active_probes st - 1"
  by (simp_all add: vacate_def Let_def)

lemma occupy_inv:
  assumes ok: "scanner_ok s" and inv: "table_inv s st"
    and i: "i < max_probes s" "\<not> active (probe_table st ! i)"
    and h: "h < total_hosts s" "host_to_probe st ! h = -1"
    and p: "active p" "dest_ip p = host_ip s h"
  shows "table_inv s (occupy i h p st)"
proof -
  let ?t = "(probe_table st)[i := p]" and ?h = "(host_to_probe st)[h := int i]"
  note len = table_invD [OF inv]
  have C: "in_range s (dest_ip (?t ! j)) \<and> ?h ! host_no s (dest_ip (?t ! j)) = int j"
    if j: "j < max_probes s" "active (?t ! j)" for j
  proof (cases "j = i")
    case True
    then show ?thesis using i h p len ok by (simp add: host_ip_in_range host_no_host_ip)
  next
    case False
    then have "active (probe_table st ! j)" using j by simp
    note sl = table_inv_slot [OF inv j(1) this]
    then have "host_no s (dest_ip (probe_table st ! j)) \<noteq> h" using h by auto
    with sl False show ?thesis by simp
  qed
  have D: "?h ! k = -1 \<or> (\<exists>j<max_probes s. ?h ! k = int j \<and> active (?t ! j) \<and> dest_ip (?t ! j) = host_ip s k)"
    if k: "k < total_hosts s" for k
  proof (cases "k = h")
    case True
    then show ?thesis using i h p len by auto
  next
    case False
    show ?thesis
    proof (cases "host_to_probe st ! k = -1")
      case True
      with \<open>k \<noteq> h\<close> show ?thesis by simp
    next
      case nf: False
      obtain j where j: "j < max_probes s" "host_to_probe st ! k = int j"
        "active (probe_table st ! j)" "dest_ip (probe_table st ! j) = host_ip s k"
        by (rule table_inv_host [OF inv k nf])
      then have "j \<noteq> i" using i by auto
      with j \<open>k \<noteq> h\<close> show ?thesis by (intro disjI2 exI [of _ j]) simp
    qed
  qed
  show ?thesis
    using C D len i p by (simp add: table_inv_def count_active_occupy)
qed

lemma occupy_inflight:
  assumes "table_inv s st" "i < max_probes s" "\<not> active (probe_table st ! i)" "active p"
  shows "inflight (occupy i h p st) = insert (dest_ip p) (inflight st)"
proof -
  have "i < length (probe_table st)" using assms by (simp add: table_invD)
  then show ?thesis
    using assms by (auto simp: inflight_nth nth_list_update split: if_splits)
qed

lemma vacate_inv:
  assumes ok: "scanner_ok s" and inv: "table_inv s st"
    and i: "i < max_probes s" "active (probe_table st ! i)"
  shows "table_inv s (vacate s i st)"
proof -
  let ?p = "probe_table st ! i"
  let ?t = "(probe_table st)[i := ?p\<lparr>active := False\<rparr>]"
  let ?h = "(host_to_probe st)[host_no s (dest_ip ?p) := -1]"
  note len = table_invD [OF inv] and sl = table_inv_slot [OF inv i]
  have C: "in_range s (dest_ip (?t ! j)) \<and> ?h ! host_no s (dest_ip (?t ! j)) = int j"
    if j: "j < max_probes s" "active (?t ! j)" for j
  proof -
    have ne: "j \<noteq> i" using j len i by auto
    then have act: "active (probe_table st ! j)" using j by simp
    note sj = table_inv_slot [OF inv j(1) act]
    then have "host_no s (dest_ip (probe_table st ! j)) \<noteq> host_no s (dest_ip ?p)"
      using sl ne by auto
    with sj ne show ?thesis by simp
  qed
  have D: "?h ! k = -1 \<or> (\<exists>j<max_probes s. ?h ! k = int j \<and> active (?t ! j) \<and> dest_ip (?t ! j) = host_ip s k)"
    if k: "k < total_hosts s" for k
  proof (cases "k = host_no s (dest_ip ?p) \<or> host_to_probe st ! k = -1")
    case True
    then show ?thesis using len k by (cases "k = host_no s (dest_ip ?p)") auto
  next
    case False
    then have nf: "host_to_probe st ! k \<noteq> -1" by simp
    obtain j where j: "j < max_probes s" "host_to_probe st ! k = int j" "active (probe_table st ! j)"
        "dest_ip (probe_table st ! j) = host_ip s k"
      by (rule table_inv_host [OF inv k nf])
    then have "j \<noteq> i" using False ok k by (auto simp: host_no_host_ip)
    with j False show ?thesis by (intro disjI2 exI [of _ j]) auto
  qed
  show ?thesis
    using C D len i by (simp add: table_inv_def count_active_clear)
qed

lemma vacate_inflight:
  assumes inv: "table_inv s st" and i: "i < max_probes s" "active (probe_table st ! i)"
  shows "inflight (vacate s i st) = inflight st - {dest_ip (probe_table st ! i)}"
proof -
  let ?t = "probe_table st"
  have len: "length ?t = max_probes s" using inv by (rule table_invD)
  have "inflight (vacate s i st) =
      {dest_ip (?t ! j) |j. j < max_probes s \<and> j \<noteq> i \<and> active (?t ! j)}"
    using len i(1) by (auto simp: inflight_nth nth_list_update split: if_splits)
  also have "\<dots> = inflight st - {dest_ip (?t ! i)}"
    using table_inv_inj [OF inv _ i(1) _ i(2)] len by (auto simp: inflight_nth)
  finally show ?thesis .
qed

lemma release_probe_slot_eq:
  assumes ok: "scanner_ok s" and inv: "table_inv s st"
  shows "release_probe_slot s slot st =
    (if 0 \<le> slot \<and> nat slot < max_probes s \<and> active (probe_table st ! nat slot)
     then vacate s (nat slot) st else st)"
proof (cases "0 \<le> slot \<and> nat slot < max_probes s \<and> active (probe_table st ! nat slot)")
  case True
  then have i: "nat slot < max_probes s" "active (probe_table st ! nat slot)" by auto
  note sl = table_inv_slot [OF inv i]
  have idx: "host_index_for_ip s (dest_ip (probe_table st ! nat slot))
      = int (host_no s (dest_ip (probe_table st ! nat slot)))"
    using sl(1) by (simp add: host_index_for_ip_eq [OF ok])
  have h: "host_to_probe st ! host_no s (dest_ip (probe_table st ! nat slot)) = slot"
    using sl(2) True by simp
  show ?thesis
    using True table_invD(1) [OF inv]
    by (simp add: release_probe_slot_def vacate_def idx h)
next
  case False
  then show ?thesis
    using table_invD(1) [OF inv] by (auto simp: release_probe_slot_def)
qed

section \<open>The numbers given out\<close>

text \<open>\<open>sequences k n\<close> are the numbers of \<open>k\<close> allocations from counter \<open>n\<close>; they run through 1 to 65535 in a circle.\<close>

primrec sequences :: "nat \<Rightarrow> u16 \<Rightarrow> u16 list" where
  "sequences 0 n = []"
| "sequences (Suc k) n = fst (allocate_sequence n) # sequences k (snd (allocate_sequence n))"

definition seq_at :: "nat \<Rightarrow> nat \<Rightarrow> u16" where
  "seq_at m i = word_of_nat ((m + i) mod 65535 + 1)"

lemma unat_seq_at: "unat (seq_at m i) = (m + i) mod 65535 + 1"
  by (simp add: seq_at_def unat_of_nat del: of_nat_add of_nat_Suc)

lemma allocate_sequence_seq_at: "allocate_sequence (seq_at m 0) = (seq_at m 0, seq_at m 1)"
proof -
  have nz: "seq_at m i \<noteq> 0" for i using unat_seq_at [of m i] by (auto simp: unat_eq_0 [symmetric])
  have "seq_at m 1 = (if seq_at m 0 + 1 = 0 then 1 else seq_at m 0 + 1)"
  proof (cases "m mod 65535 = 65534")
    case True
    then have "Suc m mod 65535 = 0" by (simp add: mod_Suc)
    with True show ?thesis by (simp add: seq_at_def)
  next
    case False
    then have "Suc m mod 65535 = Suc (m mod 65535)" by (simp add: mod_Suc)
    then have "seq_at m 1 = seq_at m 0 + 1" by (simp add: seq_at_def algebra_simps)
    with nz [of 1] show ?thesis by simp
  qed
  with nz [of 0] show ?thesis by (simp add: allocate_sequence_def Let_def)
qed

lemma seq_at_shift: "seq_at (m + 1) i = seq_at m (Suc i)" "seq_at m 1 = seq_at (m + 1) 0"
  unfolding seq_at_def by (simp_all only: add.assoc plus_1_eq_Suc add_0_right)

lemma sequences_seq_at: "sequences k (seq_at m 0) = map (seq_at m) [0..<k]"
proof (induction k arbitrary: m)
  case (Suc k)
  have "map (seq_at m) [0..<Suc k] = seq_at m 0 # map (seq_at m \<circ> Suc) [0..<k]"
    by (simp only: upt_conv_Cons [OF zero_less_Suc] list.map map_map [symmetric] map_Suc_upt)
  moreover have "seq_at m \<circ> Suc = seq_at (m + 1)" by (simp add: fun_eq_iff seq_at_def)
  ultimately show ?case
    using Suc.IH [of "m + 1"] by (simp only: sequences.simps allocate_sequence_seq_at fst_conv snd_conv seq_at_shift(2))
qed simp

end
