(* ===== verification/Ping_Send.thy ===== *)
theory Ping_Send
  imports Ping_State
begin

text \<open>
  The sending half of the ping scanner: filling a batch (\<^verbatim>\<open>prepare_single_packet\<close>,
  \<^verbatim>\<open>populate_batch_entries\<close>), waiting for the socket, and flushing the batch with \<^verbatim>\<open>sendmmsg\<close>
  (\<^verbatim>\<open>flush_send_queue\<close>, \<^verbatim>\<open>send_batch\<close>). The two loops around system calls may run for ever,
  depending on the kernel; they are partial functions into \<open>outcome\<close>.
\<close>

section \<open>One packet\<close>

text \<open>
  Header, payload and filler are copied one after the other into the slice of \<open>send_packets\<close>
  that belongs to the batch position; the message header at that position names the address
  and the slice. A write outside the buffers is \<open>Out_of_bounds\<close>.
\<close>

definition write_packet ::
    "ping_scanner \<Rightarrow> u8 list \<Rightarrow> nat \<Rightarrow> IcmpHdr \<Rightarrow> u32 \<Rightarrow> PingPayload \<Rightarrow> u8 list option" where
  "write_packet s buf packet_offset icmp pad payload_data = do {
     buf1 \<leftarrow> write_bytes buf packet_offset (put_IcmpHdr icmp);
     buf2 \<leftarrow> write_bytes buf1 (size_add packet_offset sizeof_IcmpHdr) (put_PingPayload pad payload_data);
     if payload_len s > 0
     then write_bytes buf2 (size_add (size_add packet_offset sizeof_IcmpHdr) sizeof_PingPayload)
            (filler (payload_len s))
     else Some buf2
   }"

definition prepare_single_packet ::
    "'w os \<Rightarrow> u32 \<Rightarrow> ping_scanner \<Rightarrow> nat \<Rightarrow> u32 \<Rightarrow> u16 \<Rightarrow> timespec \<Rightarrow> 'w ping_state
      \<Rightarrow> fault + 'w ping_state" where
  "prepare_single_packet os pad s batch_count target sequence send_ts st =
     (let (pid, w) = on_env (os_getpid os) (world st);
          pid16 = ucast (pid AND 0xFFFF) :: u16;
          packet_offset = size_mul batch_count (packet_buffer_size s);
          icmp = \<lparr>icmp_type = ICMP_ECHO, icmp_code = 0, icmp_checksum = 0,
                  icmp_id = htons pid16, icmp_sequence = htons sequence\<rparr>;
          payload_data = \<lparr>target_ip = target, send_sec = word_of_int (tv_sec send_ts),
                          send_nsec = word_of_int (tv_nsec send_ts)\<rparr>
      in if batch_count \<ge> length (send_addrs st) then Inl Out_of_bounds
         else case write_packet s (send_packets st) packet_offset icmp pad payload_data of
           None \<Rightarrow> Inl Out_of_bounds
         | Some buf \<Rightarrow> Inr (st\<lparr>
             world := w,
             send_packets := buf,
             send_addrs := (send_addrs st)[batch_count := htonl target],
             send_iovs := (send_iovs st)[batch_count := (packet_offset, packet_buffer_size s)],
             send_msgvec := (send_msgvec st)[batch_count := Some batch_count]\<rparr>))"

section \<open>A batch\<close>

text \<open>
  One round of the loop of \<^verbatim>\<open>populate_batch_entries\<close>, with what it does next: \<open>Halt\<close> is its
  \<^verbatim>\<open>break\<close>, \<open>Again\<close> the end of the body or a \<^verbatim>\<open>continue\<close>, with the new state and batch count.
\<close>

datatype 'a round = Halt 'a | Again 'a

definition populate_one ::
    "'w os \<Rightarrow> u32 \<Rightarrow> ping_scanner \<Rightarrow> timespec \<Rightarrow> 'w ping_state \<times> nat
      \<Rightarrow> fault + ('w ping_state \<times> nat) round" where
  "populate_one os pad s send_ts sb =
     (let (st, batch_count) = sb in
      if find_available_probe_slot st < 0 then Inr (Halt (st, batch_count))
      else
        let target = base_ip s + word_of_nat (next_host_idx st);
            ni = network_interface s;
            skip = Inr (Again (st\<lparr>next_host_idx := Suc (next_host_idx st)\<rparr>, batch_count))
        in if is_local ni \<and> (target = network_ip ni \<or> target = broadcast_ip ni) then skip
           else
             let host_idx = host_index_for_ip s target
             in if host_idx < 0 \<or> is_host_found st target \<or> host_to_probe st ! nat host_idx \<ge> 0
                then skip
                else
                  let slot = find_available_probe_slot st
                  in if slot < 0 then Inr (Halt (st, batch_count))
                     else
                       let (candidate, next) = allocate_sequence (next_seq st);
                           p = \<lparr>active = True, dest_ip = target, send_time = send_ts,
                                seq_no = candidate\<rparr>;
                           st1 = st\<lparr>next_seq := next,
                                    probe_table := (probe_table st)[nat slot := p],
                                    host_to_probe := (host_to_probe st)[nat host_idx := slot]\<rparr>
                       in case prepare_single_packet os pad s batch_count target candidate send_ts st1 of
                            Inl e \<Rightarrow> Inl e
                          | Inr st2 \<Rightarrow> Inr (Again
                              (st2\<lparr>send_probe_slots := (send_probe_slots st2)[batch_count := slot],
                                   next_host_idx := Suc (next_host_idx st),
                                   active_probes := Suc (active_probes st)\<rparr>,
                               Suc batch_count)))"

lemma populate_one_next:
  "populate_one os pad s ts (st, n) = Inr (Again (st', n')) \<Longrightarrow> next_host_idx st' = Suc (next_host_idx st)"
  by (auto simp: populate_one_def Let_def split: if_splits prod.splits sum.splits)

function populate_batch_entries ::
    "'w os \<Rightarrow> u32 \<Rightarrow> ping_scanner \<Rightarrow> timespec \<Rightarrow> 'w ping_state \<times> nat
      \<Rightarrow> fault + ('w ping_state \<times> nat)" where
  "populate_batch_entries os pad s send_ts (st, batch_count) =
     (if next_host_idx st < total_hosts s \<and> active_probes st < max_probes s \<and>
         batch_count < send_batch_size s
      then case populate_one os pad s send_ts (st, batch_count) of
          Inl e \<Rightarrow> Inl e
        | Inr (Halt sb) \<Rightarrow> Inr sb
        | Inr (Again sb) \<Rightarrow> populate_batch_entries os pad s send_ts sb
      else Inr (st, batch_count))"
  by pat_completeness auto
termination
  by (relation "measure (\<lambda>(os, pad, s, ts, (st, n)). total_hosts s - next_host_idx st)")
    (auto dest: populate_one_next)

declare populate_batch_entries.simps [simp del]

section \<open>Waiting for the socket\<close>

definition poll_event :: "ping_scanner \<Rightarrow> u32 \<Rightarrow> epoll_event option" where
  "poll_event s events = Some \<lparr>ep_events = events, ep_data = word_of_int (sock s)\<rparr>"

partial_function (option) wait_loop ::
    "'w os \<Rightarrow> ping_scanner \<Rightarrow> 'w world \<Rightarrow> (bool \<times> 'w world) outcome" where
  "wait_loop os s w =
     (let ((event_count, e, evs), w1) =
            on_env (os_epoll_wait os (epoll_fd s) 1 (sint (timeout_ms s))) w;
          events = (case evs of [] \<Rightarrow> EPOLLIN OR EPOLLOUT OR EPOLLET | ev # _ \<Rightarrow> ep_events ev)
      in if event_count < 0 then
           (if e = EINTR then wait_loop os s w1
            else Some (Inl (System_error e ''epoll_wait(EPOLLOUT)'')))
         else if event_count = 0 then Some (Inr (False, w1))
         else if events AND EPOLLOUT \<noteq> 0 then Some (Inr (True, w1))
         else if events AND (EPOLLERR OR EPOLLHUP) \<noteq> 0 then Some (Inr (False, w1))
         else wait_loop os s w1)"

definition wait_for_socket_writable ::
    "'w os \<Rightarrow> ping_scanner \<Rightarrow> 'w world \<Rightarrow> (bool \<times> 'w world) outcome" where
  "wait_for_socket_writable os s w =
     (let ((r, e), w1) = sys_call os (Epoll_ctl (epoll_fd s) EPOLL_CTL_MOD (sock s)
            (poll_event s (EPOLLIN OR EPOLLOUT OR EPOLLET))) w
      in if r < 0 then Some (Inl (System_error e ''epoll_ctl(EPOLLOUT)''))
         else seq (wait_loop os s w1) (\<lambda>(writable, w2).
           let ((r2, e2), w3) = sys_call os (Epoll_ctl (epoll_fd s) EPOLL_CTL_MOD (sock s)
                 (poll_event s (EPOLLIN OR EPOLLET))) w2
           in if r2 < 0 then Some (Inl (System_error e2 ''epoll_ctl(EPOLLIN)''))
              else Some (Inr (writable, w3))))"

section \<open>Flushing\<close>

text \<open>What \<^verbatim>\<open>sendmmsg\<close> is given: the message headers from \<open>sent_total\<close> on, each followed to its
  address and its slice.\<close>

definition message_at :: "'w ping_state \<Rightarrow> nat \<Rightarrow> tx_msg" where
  "message_at st i = (case send_msgvec st ! i of
      None \<Rightarrow> \<lparr>tx_addr = 0, tx_data = []\<rparr>
    | Some k \<Rightarrow>
        let (off, len) = send_iovs st ! k
        in \<lparr>tx_addr = send_addrs st ! k, tx_data = take len (drop off (send_packets st))\<rparr>)"

definition release_unsent :: "ping_scanner \<Rightarrow> nat \<Rightarrow> nat \<Rightarrow> 'w ping_state \<Rightarrow> 'w ping_state" where
  "release_unsent s sent_total batch_count st =
     fold (\<lambda>i st1. (release_probe_slot s (send_probe_slots st1 ! i) st1)
             \<lparr>send_probe_slots := (send_probe_slots st1)[i := -1]\<rparr>)
       [sent_total..<batch_count] st"

definition clear_sent :: "nat \<Rightarrow> 'w ping_state \<Rightarrow> 'w ping_state" where
  "clear_sent batch_count st =
     st\<lparr>send_probe_slots := fold (\<lambda>i xs. xs[i := -1]) [0..<batch_count] (send_probe_slots st)\<rparr>"

definition give_up :: "ping_scanner \<Rightarrow> nat \<Rightarrow> nat \<Rightarrow> 'w ping_state \<Rightarrow> 'w ping_state" where
  "give_up s sent_total batch_count st =
     (let st1 = release_unsent s sent_total batch_count st
      in st1\<lparr>next_host_idx := size_sub (next_host_idx st1) (batch_count - sent_total)\<rparr>)"

text \<open>The error text, which only the standard-error report uses.\<close>

definition send_error_text :: "int \<Rightarrow> string" where
  "send_error_text e =
     (if e = EACCES then ''Permission denied''
      else if e = EBADF then ''Bad file descriptor''
      else if e = EFAULT then ''Bad address''
      else if e = EINVAL then ''Invalid argument''
      else if e = ENOMEM then ''Out of memory''
      else if e = ENOTSOCK then ''Socket operation on non-socket''
      else if e = EMSGSIZE then ''Message too long''
      else if e = ENOBUFS then ''No buffer space available''
      else ''System error'')"

definition report_send_error :: "'w os \<Rightarrow> int \<Rightarrow> 'w ping_state \<Rightarrow> 'w ping_state" where
  "report_send_error os e st =
     st\<lparr>world := snd (sys_call os (Fprintf_stderr (errno_line ''sendmmsg: '' e (send_error_text e))) (world st))\<rparr>"

partial_function (option) flush_loop ::
    "'w os \<Rightarrow> ping_scanner \<Rightarrow> nat \<Rightarrow> nat \<Rightarrow> 'w ping_state \<Rightarrow> (bool \<times> 'w ping_state) outcome" where
  "flush_loop os s batch_count sent_total st =
     (if sent_total < batch_count then
        let msgs = map (message_at st) [sent_total..<batch_count];
            ((sent, send_errno), w) = on_env (os_sendmmsg os (sock s) msgs) (world st);
            st1 = st\<lparr>world := w\<rparr>
        in if sent > 0 then flush_loop os s batch_count (sent_total + nat sent) st1
           else if send_errno = EAGAIN \<or> send_errno = EWOULDBLOCK then
             (let st2 = st1\<lparr>tx_drops := tx_drops st1 + 1\<rparr>
              in seq (wait_for_socket_writable os s (world st2)) (\<lambda>(writable, w2).
                   if \<not> writable
                   then Some (Inr (False, give_up s sent_total batch_count (st2\<lparr>world := w2\<rparr>)))
                   else flush_loop os s batch_count sent_total (st2\<lparr>world := w2\<rparr>)))
           else Some (Inr (False,
                  give_up s sent_total batch_count (report_send_error os send_errno st1)))
      else Some (Inr (True, clear_sent batch_count st)))"

definition flush_send_queue ::
    "'w os \<Rightarrow> ping_scanner \<Rightarrow> nat \<Rightarrow> 'w ping_state \<Rightarrow> (bool \<times> 'w ping_state) outcome" where
  "flush_send_queue os s batch_count st = flush_loop os s batch_count 0 st"

text \<open>
  \<^verbatim>\<open>populate_batch_entries\<close> returns whether the batch is non-empty; \<^verbatim>\<open>send_batch\<close> tests both that
  and the count.
\<close>

definition send_batch ::
    "'w os \<Rightarrow> u32 \<Rightarrow> ping_scanner \<Rightarrow> 'w ping_state \<Rightarrow> (bool \<times> 'w ping_state) outcome" where
  "send_batch os pad s st =
     (let (send_ts, w) = on_env (os_clock_gettime os) (world st)
      in case populate_batch_entries os pad s send_ts (st\<lparr>world := w\<rparr>, 0) of
           Inl e \<Rightarrow> Some (Inl e)
         | Inr (st1, batch_count) \<Rightarrow>
             if batch_count = 0 then Some (Inr (True, st1))
             else flush_send_queue os s batch_count st1)"

section \<open>Lemmas: packets\<close>

text \<open>The datagram of a probe, and the well-formedness of the sending buffers.\<close>

definition echo_request :: "ping_scanner \<Rightarrow> u16 \<Rightarrow> u32 \<Rightarrow> u32 \<Rightarrow> u16 \<Rightarrow> timespec \<Rightarrow> u8 list" where
  "echo_request s pid16 pad target sequence send_ts =
     put_IcmpHdr \<lparr>icmp_type = ICMP_ECHO, icmp_code = 0, icmp_checksum = 0,
                  icmp_id = htons pid16, icmp_sequence = htons sequence\<rparr> @
     put_PingPayload pad \<lparr>target_ip = target, send_sec = word_of_int (tv_sec send_ts),
                          send_nsec = word_of_int (tv_nsec send_ts)\<rparr> @
     filler (payload_len s)"

definition packet_ok :: "ping_scanner \<Rightarrow> bool" where
  "packet_ok s \<longleftrightarrow> packet_buffer_size s = 32 + payload_len s \<and>
     send_count s * packet_buffer_size s < 2 ^ 64"

definition buf_inv :: "ping_scanner \<Rightarrow> 'w ping_state \<Rightarrow> bool" where
  "buf_inv s st \<longleftrightarrow>
     length (send_packets st) = send_count s * packet_buffer_size s \<and>
     length (send_addrs st) = send_count s \<and> length (send_iovs st) = send_count s \<and>
     length (send_msgvec st) = send_count s \<and> length (send_probe_slots st) = send_count s"

lemma length_echo_request [simp]: "length (echo_request s pid pad t q ts) = 32 + payload_len s"
  by (simp add: echo_request_def hdr.length_enc payload.length_enc sizeof_IcmpHdr_def
      sizeof_PingPayload_def)

lemma write_bytes_append:
  assumes "off + length (xs @ ys) \<le> length buf"
  shows "write_bytes buf off (xs @ ys) =
    Option.bind (write_bytes buf off xs) (\<lambda>b. write_bytes b (off + length xs) ys)"
  using assms by (simp add: write_bytes_def ac_simps)

lemma write_packet_eq:
  assumes fit: "off + 32 + payload_len s \<le> length buf" and small: "length buf < 2 ^ 64"
  shows "write_packet s buf off h pad p =
    write_bytes buf off (put_IcmpHdr h @ put_PingPayload pad p @ filler (payload_len s))"
proof -
  let ?H = "put_IcmpHdr h" and ?P = "put_PingPayload pad p" and ?F = "filler (payload_len s)"
  have len: "length ?H = 8" "length ?P = 24"
    by (simp_all add: hdr.length_enc payload.length_enc sizeof_IcmpHdr_def sizeof_PingPayload_def)
  have size: "size_add off sizeof_IcmpHdr = off + 8" "size_add (off + 8) sizeof_PingPayload = off + 32"
    using fit small by (simp_all add: size_add_def sizeof_IcmpHdr_def sizeof_PingPayload_def)
  have "write_bytes buf off (?H @ ?P @ ?F) =
      Option.bind (write_bytes buf off ?H) (\<lambda>b. write_bytes b (off + 8) (?P @ ?F))"
    using fit len by (subst write_bytes_append) simp_all
  also have "\<dots> = write_packet s buf off h pad p"
  proof (cases "write_bytes buf off ?H")
    case None
    then show ?thesis by (simp add: write_packet_def)
  next
    case (Some b)
    then have "length b = length buf" by (rule write_bytes_length)
    then have "write_bytes b (off + 8) (?P @ ?F) =
        Option.bind (write_bytes b (off + 8) ?P) (\<lambda>b. write_bytes b (off + 32) ?F)"
      using fit len by (subst write_bytes_append) (simp_all add: add.commute)
    moreover have "write_bytes b' (off + 32) [] = Some b'"
      if "write_bytes b (off + 8) ?P = Some b'" for b'
      using write_bytes_length [OF that] \<open>length b = length buf\<close> fit
      by (simp add: write_bytes_def)
    ultimately show ?thesis
      by (cases "payload_len s = 0")
        (auto simp: write_packet_def Some size filler_def split: bind_splits)
  qed
  finally show ?thesis by simp
qed

definition packet_slice :: "ping_scanner \<Rightarrow> 'w ping_state \<Rightarrow> nat \<Rightarrow> u8 list option" where
  "packet_slice s st i = read_bytes (send_packets st) (i * packet_buffer_size s) (packet_buffer_size s)"

lemma slice_fits:
  assumes "i < (n::nat)"
  shows "i * m + m \<le> n * m"
proof -
  have "Suc i * m \<le> n * m" using assms by (intro mult_le_mono1) simp
  then show ?thesis by (simp add: add.commute)
qed

lemma slices_disjoint: "i \<noteq> j \<Longrightarrow> i * m + m \<le> j * m \<or> j * m + m \<le> i * (m::nat)"
  using slice_fits [of i j m] slice_fits [of j i m] by (cases "i < j") auto

lemma prepare_single_packet_spec:
  assumes pk: "packet_ok s" and buf: "buf_inv s st" and n: "n < send_count s"
  obtains pid16 buf' w where
    "prepare_single_packet os pad s n target sequence send_ts st = Inr (st\<lparr>
       world := w, send_packets := buf',
       send_addrs := (send_addrs st)[n := htonl target],
       send_iovs := (send_iovs st)[n := (n * packet_buffer_size s, packet_buffer_size s)],
       send_msgvec := (send_msgvec st)[n := Some n]\<rparr>)"
    "length buf' = length (send_packets st)"
    "read_bytes buf' (n * packet_buffer_size s) (packet_buffer_size s)
       = Some (echo_request s pid16 pad target sequence send_ts)"
    "\<And>j. j \<noteq> n \<Longrightarrow> read_bytes buf' (j * packet_buffer_size s) (packet_buffer_size s)
       = packet_slice s st j"
    "led w = led (world st)"
proof -
  let ?m = "packet_buffer_size s"
  obtain pid w where gp: "on_env (os_getpid os) (world st) = (pid, w)"
    by (cases "on_env (os_getpid os) (world st)") auto
  define pid16 where "pid16 = (ucast (pid AND 0xFFFF) :: u16)"
  let ?E = "echo_request s pid16 pad target sequence send_ts"
  have len: "length (send_packets st) = send_count s * ?m" "length (send_addrs st) = send_count s"
    using buf by (auto simp: buf_inv_def)
  have m: "?m = 32 + payload_len s" and small: "send_count s * ?m < 2 ^ 64"
    using pk by (auto simp: packet_ok_def)
  have fit: "n * ?m + length ?E \<le> length (send_packets st)"
    using slice_fits [OF n, of ?m] by (simp add: len m)
  have off: "size_mul n ?m = n * ?m"
    using small fit len by (simp add: size_mul_def)
  obtain buf' where w': "write_bytes (send_packets st) (n * ?m) ?E = Some buf'"
    using write_bytes_Some [OF fit] by blast
  have "n * ?m + 32 + payload_len s \<le> length (send_packets st)"
    and "length (send_packets st) < 2 ^ 64"
    using fit small by (simp_all add: len m)
  note wp = write_packet_eq [OF this, unfolded append_assoc]
  have "prepare_single_packet os pad s n target sequence send_ts st = Inr (st\<lparr>
       world := w, send_packets := buf',
       send_addrs := (send_addrs st)[n := htonl target],
       send_iovs := (send_iovs st)[n := (n * ?m, ?m)],
       send_msgvec := (send_msgvec st)[n := Some n]\<rparr>)"
    unfolding prepare_single_packet_def gp Let_def prod.case off wp
      echo_request_def [symmetric] pid16_def [symmetric] w' option.case
    using n len by simp
  moreover have "length buf' = length (send_packets st)"
    using w' by (rule write_bytes_length)
  moreover have "read_bytes buf' (n * ?m) ?m = Some ?E"
    using read_write_same [OF w'] by (simp add: m)
  moreover have "read_bytes buf' (j * ?m) ?m = packet_slice s st j" if "j \<noteq> n" for j
    using read_write_disjoint [OF w', of "j * ?m" ?m] slices_disjoint [OF that, of ?m]
    by (simp add: packet_slice_def m)
  moreover have "led w = led (world st)" using gp by (rule on_env_led)
  ultimately show thesis using that by blast
qed

section \<open>Lemmas: one round of a batch\<close>

definition wanted :: "ping_scanner \<Rightarrow> 'w ping_state \<Rightarrow> u32 \<Rightarrow> bool" where
  "wanted s st a \<longleftrightarrow> \<not> skipped s a \<and> a \<notin> set (found_ips_cache st) \<and> a \<notin> inflight st"

text \<open>What sending never touches: the results and the reply counters.\<close>

definition results_of :: "'w ping_state \<Rightarrow>
    u32 list \<times> PingHostResult list \<times> nat \<times> PingHostResult list \<times> u32 \<times> u32 \<times> u32 \<times> u32" where
  "results_of st = (found_ips_cache st, scan_results st, hosts_found st, reported st,
     echo_replies st, unmatched_replies st, probe_timeouts st, rx_queue_overflows st)"

text \<open>
  The first \<open>length targets\<close> positions of the batch hold the probes of \<open>targets\<close>, in order: message,
  slot, and the slot's record agree.
\<close>

definition batch_entry ::
    "ping_scanner \<Rightarrow> u32 \<Rightarrow> timespec \<Rightarrow> 'w ping_state \<Rightarrow> nat \<Rightarrow> u32 \<Rightarrow> bool" where
  "batch_entry s pad ts st j a \<longleftrightarrow>
     send_msgvec st ! j = Some j \<and>
     send_iovs st ! j = (j * packet_buffer_size s, packet_buffer_size s) \<and>
     send_addrs st ! j = htonl a \<and>
     (\<exists>i pid16 q. packet_slice s st j = Some (echo_request s pid16 pad a q ts) \<and> q \<noteq> 0 \<and>
        send_probe_slots st ! j = int i \<and> i < max_probes s \<and>
        probe_table st ! i = \<lparr>active = True, dest_ip = a, send_time = ts, seq_no = q\<rparr>)"

definition batch_inv ::
    "ping_scanner \<Rightarrow> u32 \<Rightarrow> timespec \<Rightarrow> 'w ping_state \<Rightarrow> u32 list \<Rightarrow> bool" where
  "batch_inv s pad ts st targets \<longleftrightarrow>
     length targets \<le> send_count s \<and> distinct targets \<and>
     (\<forall>j<length targets. batch_entry s pad ts st j (targets ! j))"

lemma batch_entry_message:
  assumes "batch_entry s pad ts st j a"
  obtains pid16 q where "q \<noteq> 0"
    "message_at st j = \<lparr>tx_addr = htonl a, tx_data = echo_request s pid16 pad a q ts\<rparr>"
  using assms
  by (auto simp: batch_entry_def message_at_def packet_slice_def read_bytes_def split: if_splits)

lemma batch_entry_inflight:
  assumes "batch_entry s pad ts st j a" and "length (probe_table st) = max_probes s"
  shows "a \<in> inflight st"
proof -
  obtain i where "i < max_probes s" "active (probe_table st ! i)" "dest_ip (probe_table st ! i) = a"
    using assms(1) by (auto simp: batch_entry_def)
  then show ?thesis using assms(2) by (auto simp: inflight_nth intro: exI [of _ i])
qed

lemma host_to_probe_inflight:
  assumes ok: "scanner_ok s" and inv: "table_inv s st" and h: "h < total_hosts s"
  shows "host_to_probe st ! h \<ge> 0 \<longleftrightarrow> host_ip s h \<in> inflight st"
    and "host_to_probe st ! h < 0 \<Longrightarrow> host_to_probe st ! h = -1"
proof -
  have len: "length (probe_table st) = max_probes s" using inv by (rule table_invD)
  show "host_to_probe st ! h < 0 \<Longrightarrow> host_to_probe st ! h = -1"
    using table_inv_host [OF inv h] by (metis of_nat_0_le_iff not_less)
  show "host_to_probe st ! h \<ge> 0 \<longleftrightarrow> host_ip s h \<in> inflight st"
  proof
    assume "host_to_probe st ! h \<ge> 0"
    then have "host_to_probe st ! h \<noteq> -1" by simp
    then show "host_ip s h \<in> inflight st"
      by (rule table_inv_host [OF inv h]) (auto simp: inflight_nth len intro: sym)
  next
    assume "host_ip s h \<in> inflight st"
    then obtain i where "i < max_probes s" "active (probe_table st ! i)"
      "dest_ip (probe_table st ! i) = host_ip s h"
      by (auto simp: inflight_nth len)
    then show "host_to_probe st ! h \<ge> 0"
      using table_inv_slot(2) [OF inv] host_no_host_ip [OF ok h] by (metis of_nat_0_le_iff)
  qed
qed

lemma table_inv_cong:
  assumes "probe_table st' = probe_table st" "host_to_probe st' = host_to_probe st"
    "active_probes st' = active_probes st"
  shows "table_inv s st' \<longleftrightarrow> table_inv s st"
  by (simp add: table_inv_def assms)

lemma inflight_cong: "probe_table st' = probe_table st \<Longrightarrow> inflight st' = inflight st"
  by (simp add: inflight_def)

lemma free_slot:
  assumes ok: "scanner_ok s" and inv: "table_inv s st" and room: "active_probes st < max_probes s"
  obtains i where "find_available_probe_slot st = int i" "i < max_probes s"
    "\<not> active (probe_table st ! i)"
proof -
  note len = table_invD [OF inv]
  have small: "length (probe_table st) < 2 ^ 31" using ok len by (simp add: scanner_ok_def)
  have "0 \<le> find_slot_from 0 (probe_table st)"
    using slots.search_finds [OF small] room len by simp
  with slots.search_some [OF small this] len that [of "nat (find_slot_from 0 (probe_table st))"]
  show thesis by (simp add: find_available_probe_slot_def)
qed

lemma populate_one_skip:
  assumes ok: "scanner_ok s" and inv: "table_inv s st"
    and next_h: "next_host_idx st < total_hosts s" and room: "active_probes st < max_probes s"
    and unwanted: "\<not> wanted s st (host_ip s (next_host_idx st))"
  shows "populate_one os pad s ts (st, n) =
    Inr (Again (st\<lparr>next_host_idx := Suc (next_host_idx st)\<rparr>, n))"
proof -
  obtain i where slot: "find_available_probe_slot st = int i"
    by (rule free_slot [OF ok inv room])
  have idx: "host_index_for_ip s (host_ip s (next_host_idx st)) = int (next_host_idx st)"
    using host_index_for_ip_eq [OF ok] host_ip_in_range [OF ok next_h]
      host_no_host_ip [OF ok next_h] by simp
  show ?thesis
    using unwanted host_to_probe_inflight(1) [OF ok inv next_h] idx
    by (auto simp: populate_one_def slot wanted_def skipped_def is_host_found_def Let_def
        host_ip_def)
qed

lemma populate_one_send:
  assumes ok: "scanner_ok s" "packet_ok s" and inv: "table_inv s st" "buf_inv s st"
    and next_h: "next_host_idx st < total_hosts s" and room: "active_probes st < max_probes s"
    and batch: "batch_inv s pad ts st targets" "length targets < send_count s"
    and want: "wanted s st (host_ip s (next_host_idx st))"
  obtains st' where
    "populate_one os pad s ts (st, length targets) = Inr (Again (st', Suc (length targets)))"
    "table_inv s st'" "buf_inv s st'"
    "batch_inv s pad ts st' (targets @ [host_ip s (next_host_idx st)])"
    "inflight st' = insert (host_ip s (next_host_idx st)) (inflight st)"
    "next_host_idx st' = Suc (next_host_idx st)" "active_probes st' = Suc (active_probes st)"
    "results_of st' = results_of st" "led (world st') = led (world st)" "tx_drops st' = tx_drops st"
proof -
  let ?a = "host_ip s (next_host_idx st)" and ?n = "length targets"
  obtain i where slot: "find_available_probe_slot st = int i" and i: "i < max_probes s"
      "\<not> active (probe_table st ! i)"
    by (rule free_slot [OF ok(1) inv(1) room])
  have idx: "host_index_for_ip s ?a = int (next_host_idx st)"
    using host_index_for_ip_eq [OF ok(1)] host_ip_in_range [OF ok(1) next_h]
      host_no_host_ip [OF ok(1) next_h] by simp
  have h2p: "\<not> host_to_probe st ! next_host_idx st \<ge> 0"
    using want host_to_probe_inflight(1) [OF ok(1) inv(1) next_h] by (simp add: wanted_def)
  then have free: "host_to_probe st ! next_host_idx st = -1"
    using host_to_probe_inflight(2) [OF ok(1) inv(1) next_h] by simp
  obtain q nxt where seq: "allocate_sequence (next_seq st) = (q, nxt)"
    by (cases "allocate_sequence (next_seq st)") auto
  have q: "q \<noteq> 0" using allocate_sequence_nonzero(1) [of "next_seq st"] seq by simp
  define p where "p = \<lparr>active = True, dest_ip = ?a, send_time = ts, seq_no = q\<rparr>"
  define st1 where "st1 = st\<lparr>next_seq := nxt, probe_table := (probe_table st)[i := p],
      host_to_probe := (host_to_probe st)[next_host_idx st := int i]\<rparr>"
  have buf1: "buf_inv s st1" using inv(2) by (simp add: buf_inv_def st1_def)
  obtain pid16 buf' w where prep:
    "prepare_single_packet os pad s ?n ?a q ts st1 = Inr (st1\<lparr>
       world := w, send_packets := buf',
       send_addrs := (send_addrs st1)[?n := htonl ?a],
       send_iovs := (send_iovs st1)[?n := (?n * packet_buffer_size s, packet_buffer_size s)],
       send_msgvec := (send_msgvec st1)[?n := Some ?n]\<rparr>)"
    and len': "length buf' = length (send_packets st1)"
    and same: "read_bytes buf' (?n * packet_buffer_size s) (packet_buffer_size s)
       = Some (echo_request s pid16 pad ?a q ts)"
    and other: "\<And>j. j \<noteq> ?n \<Longrightarrow>
       read_bytes buf' (j * packet_buffer_size s) (packet_buffer_size s) = packet_slice s st1 j"
    and led: "led w = led (world st1)"
    by (rule prepare_single_packet_spec [where os = os and pad = pad and target = ?a and
          sequence = q and send_ts = ts, OF ok(2) buf1 batch(2)]) blast
  define st' where "st' = st1\<lparr>
       world := w, send_packets := buf',
       send_addrs := (send_addrs st1)[?n := htonl ?a],
       send_iovs := (send_iovs st1)[?n := (?n * packet_buffer_size s, packet_buffer_size s)],
       send_msgvec := (send_msgvec st1)[?n := Some ?n],
       send_probe_slots := (send_probe_slots st1)[?n := int i],
       next_host_idx := Suc (next_host_idx st), active_probes := Suc (active_probes st)\<rparr>"
  note st_defs = st'_def st1_def
  have "populate_one os pad s ts (st, ?n) = Inr (Again (st', Suc ?n))"
    using want h2p idx prep
    by (simp add: populate_one_def slot wanted_def skipped_def is_host_found_def Let_def seq
        st'_def flip: host_ip_def p_def st1_def)
  moreover have occ: "probe_table st' = probe_table (occupy i (next_host_idx st) p st)"
    "host_to_probe st' = host_to_probe (occupy i (next_host_idx st) p st)"
    "active_probes st' = active_probes (occupy i (next_host_idx st) p st)"
    by (simp_all add: st_defs)
  moreover have "table_inv s st'"
    unfolding table_inv_cong [OF occ]
    by (rule occupy_inv [OF ok(1) inv(1) i next_h free]) (simp_all add: p_def)
  moreover have "buf_inv s st'"
    using buf1 len' by (simp add: buf_inv_def st_defs)
  moreover have "inflight st' = insert ?a (inflight st)"
    unfolding inflight_cong [OF occ(1)]
    using occupy_inflight [OF inv(1) i] by (simp add: p_def)
  moreover have "batch_inv s pad ts st' (targets @ [?a])"
  proof -
    have lens: "length (send_addrs st) = send_count s" "length (send_iovs st) = send_count s"
      "length (send_msgvec st) = send_count s" "length (send_probe_slots st) = send_count s"
      using inv(2) by (auto simp: buf_inv_def)
    have tl: "length (probe_table st) = max_probes s" using inv(1) by (rule table_invD)
    have "batch_entry s pad ts st' ?n ?a"
      using batch(2) same q i
      by (auto simp: batch_entry_def st_defs lens packet_slice_def p_def tl)
    moreover have "batch_entry s pad ts st' j (targets ! j)" if j: "j < ?n" for j
    proof -
      have e: "batch_entry s pad ts st j (targets ! j)" using batch(1) j by (simp add: batch_inv_def)
      have "packet_slice s st' j = packet_slice s st j"
        using other [of j] j by (simp add: packet_slice_def st_defs)
      moreover obtain k where "send_probe_slots st ! j = int k" "active (probe_table st ! k)"
        using e by (auto simp: batch_entry_def)
      moreover from this have "k \<noteq> i" using i by auto
      ultimately show ?thesis using e j by (auto simp: batch_entry_def st_defs)
    qed
    moreover have "?a \<notin> set targets"
      using batch(1) want batch_entry_inflight [OF _ tl]
      by (auto simp: batch_inv_def wanted_def in_set_conv_nth)
    ultimately show ?thesis
      using batch by (auto simp: batch_inv_def nth_append less_Suc_eq)
  qed
  moreover have "next_host_idx st' = Suc (next_host_idx st)"
    "active_probes st' = Suc (active_probes st)" "results_of st' = results_of st"
    "led (world st') = led (world st)" "tx_drops st' = tx_drops st"
    using led by (simp_all add: st_defs results_of_def)
  ultimately show thesis using that by blast
qed

section \<open>Lemmas: a batch\<close>

text \<open>What a populated batch is, relative to the state it was started in.\<close>

definition populated ::
    "ping_scanner \<Rightarrow> u32 \<Rightarrow> timespec \<Rightarrow> 'w ping_state \<Rightarrow> u32 list \<Rightarrow> 'w ping_state \<Rightarrow> u32 list \<Rightarrow> bool" where
  "populated s pad ts st targets st' new \<longleftrightarrow>
     table_inv s st' \<and> buf_inv s st' \<and> batch_inv s pad ts st' (targets @ new) \<and>
     new = filter (wanted s st) (map (host_ip s) [next_host_idx st..<next_host_idx st']) \<and>
     inflight st' = inflight st \<union> set new \<and>
     active_probes st' = active_probes st + length new \<and>
     next_host_idx st \<le> next_host_idx st' \<and> next_host_idx st' \<le> total_hosts s \<and>
     results_of st' = results_of st \<and> led (world st') = led (world st) \<and> tx_drops st' = tx_drops st"

definition batch_full :: "ping_scanner \<Rightarrow> 'w ping_state \<Rightarrow> nat \<Rightarrow> bool" where
  "batch_full s st n \<longleftrightarrow> total_hosts s \<le> next_host_idx st \<or> max_probes s \<le> active_probes st \<or>
     send_batch_size s \<le> n"

lemma upt_map_split: "i < j \<Longrightarrow> map f [i..<j] = f i # map f [Suc i..<j]"
  by (simp add: upt_conv_Cons)

lemma wanted_cong:
  assumes "results_of st' = results_of st" and "inflight st' = inflight st \<union> A" and "a \<notin> A"
  shows "wanted s st' a = wanted s st a"
  using assms by (auto simp: wanted_def results_of_def)

lemma filter_wanted_later:
  assumes ok: "scanner_ok s" and k: "k \<le> total_hosts s" and h: "h < total_hosts s"
    and same: "results_of st' = results_of st" "inflight st' = insert (host_ip s h) (inflight st)"
  shows "filter (wanted s st') (map (host_ip s) [Suc h..<k]) = filter (wanted s st) (map (host_ip s) [Suc h..<k])"
proof (rule filter_cong [OF refl])
  fix a assume "a \<in> set (map (host_ip s) [Suc h..<k])"
  then obtain j where j: "a = host_ip s j" "h < j" "j < k" by auto
  then have "a \<noteq> host_ip s h" using host_ip_inj [OF ok _ h] k by auto
  then show "wanted s st' a = wanted s st a"
    using same by (intro wanted_cong [where A = "{host_ip s h}"]) auto
qed

lemma populate_spec:
  assumes "scanner_ok s" "packet_ok s" "table_inv s st" "buf_inv s st"
    and "batch_inv s pad ts st targets" and "next_host_idx st \<le> total_hosts s"
  shows "\<exists>st' new. populate_batch_entries os pad s ts (st, length targets)
      = Inr (st', length targets + length new) \<and>
    populated s pad ts st targets st' new \<and> batch_full s st' (length targets + length new)"
  using assms
proof (induction "total_hosts s - next_host_idx st" arbitrary: st targets rule: less_induct)
  case (less st targets)
  note ok = less.prems(1,2) and inv = less.prems(3,4) and batch = less.prems(5)
  let ?a = "host_ip s (next_host_idx st)"
  show ?case
  proof (cases "batch_full s st (length targets)")
    case True
    then have "populate_batch_entries os pad s ts (st, length targets) = Inr (st, length targets)"
      by (subst populate_batch_entries.simps) (auto simp: batch_full_def)
    with True less.prems show ?thesis
      by (intro exI [of _ st] exI [of _ "[]"]) (simp add: populated_def)
  next
    case False
    then have room: "next_host_idx st < total_hosts s" "active_probes st < max_probes s"
      "length targets < send_batch_size s" by (auto simp: batch_full_def)
    then have cnt: "length targets < send_count s" by (simp add: send_count_def)
    show ?thesis
    proof (cases "wanted s st ?a")
      case False
      let ?st = "st\<lparr>next_host_idx := Suc (next_host_idx st)\<rparr>"
      have inv': "table_inv s ?st" "buf_inv s ?st" "batch_inv s pad ts ?st targets"
        using inv batch by (simp_all add: table_inv_def buf_inv_def batch_inv_def batch_entry_def
            packet_slice_def)
      have same: "inflight ?st = inflight st" "results_of ?st = results_of st" "wanted s ?st = wanted s st"
        by (auto simp: inflight_def results_of_def wanted_def fun_eq_iff)
      obtain st' new where IH: "populate_batch_entries os pad s ts (?st, length targets)
          = Inr (st', length targets + length new)"
        "populated s pad ts ?st targets st' new" "batch_full s st' (length targets + length new)"
        using less.hyps [of ?st targets] room ok inv' by fastforce
      have "populate_batch_entries os pad s ts (st, length targets)
          = Inr (st', length targets + length new)"
        by (subst populate_batch_entries.simps)
          (simp add: room populate_one_skip [OF ok(1) inv(1) room(1,2) False] IH(1))
      moreover have "populated s pad ts st targets st' new"
        using IH(2) False by (auto simp: populated_def same upt_map_split)
      ultimately show ?thesis using IH(3) by blast
    next
      case True
      obtain st1 where one: "populate_one os pad s ts (st, length targets) = Inr (Again (st1, Suc (length targets)))"
        and st1: "table_inv s st1" "buf_inv s st1" "batch_inv s pad ts st1 (targets @ [?a])"
          "inflight st1 = insert ?a (inflight st)" "next_host_idx st1 = Suc (next_host_idx st)"
          "active_probes st1 = Suc (active_probes st)" "results_of st1 = results_of st"
          "led (world st1) = led (world st)" "tx_drops st1 = tx_drops st"
        by (rule populate_one_send [where os = os, OF ok inv room(1,2) batch cnt True]) blast
      obtain st' new where IH: "populate_batch_entries os pad s ts (st1, length (targets @ [?a]))
          = Inr (st', length (targets @ [?a]) + length new)"
        "populated s pad ts st1 (targets @ [?a]) st' new"
        "batch_full s st' (length (targets @ [?a]) + length new)"
        using less.hyps [of st1 "targets @ [?a]"] room ok st1 by fastforce
      have "populate_batch_entries os pad s ts (st, length targets)
          = Inr (st', length targets + length (?a # new))"
        using IH(1) by (subst populate_batch_entries.simps) (simp add: room one)
      moreover have "populated s pad ts st targets st' (?a # new)"
        using IH(2) st1 True filter_wanted_later [OF ok(1) _ room(1) st1(7,4), of "next_host_idx st'"]
        by (auto simp: populated_def upt_map_split)
      ultimately show ?thesis using IH(3) by (intro exI [of _ st'] exI [of _ "?a # new"]) simp
    qed
  qed
qed

section \<open>Lemmas: flushing\<close>

text \<open>While it flushes, the scanner changes its world and its drop counter only.\<close>

definition same_but_world :: "'w ping_state \<Rightarrow> 'w ping_state \<Rightarrow> bool" where
  "same_but_world st st' \<longleftrightarrow>
     (\<exists>w d. st' = st\<lparr>world := w, tx_drops := d\<rparr> \<and> led w = led (world st))"

lemma same_but_world_refl [simp]: "same_but_world st st"
  unfolding same_but_world_def
  by (rule exI [of _ "world st"], rule exI [of _ "tx_drops st"]) simp

lemma same_but_world_step:
  "same_but_world st st1 \<Longrightarrow> led w = led (world st1) \<Longrightarrow> same_but_world st (st1\<lparr>world := w\<rparr>)"
  "same_but_world st st1 \<Longrightarrow> same_but_world st (st1\<lparr>tx_drops := d\<rparr>)"
  by (cases st; fastforce simp: same_but_world_def)+

lemma same_but_worldE:
  assumes "same_but_world st st'"
  obtains w d where "st' = st\<lparr>world := w, tx_drops := d\<rparr>" "led w = led (world st)"
  using assms by (auto simp: same_but_world_def)

lemma active_probes_inflight:
  assumes "table_inv s st"
  shows "active_probes st = card (inflight st)"
proof -
  let ?t = "probe_table st" and ?I = "{i. i < max_probes s \<and> active (probe_table st ! i)}"
  have len: "length ?t = max_probes s" using assms by (rule table_invD)
  have "inflight st = (\<lambda>i. dest_ip (?t ! i)) ` ?I" by (auto simp: inflight_nth len)
  moreover have "inj_on (\<lambda>i. dest_ip (?t ! i)) ?I"
    using table_inv_inj [OF assms] by (auto simp: inj_on_def)
  ultimately have "card (inflight st) = card ?I" by (simp add: card_image)
  then show ?thesis
    using table_invD(3) [OF assms] by (simp add: count_active_def length_filter_conv_card len)
qed

lemma wait_loop_led: "wait_loop os s w = Some r \<Longrightarrow> on_return (\<lambda>(b, w'). led w' = led w) r"
proof (induction os s w r rule: wait_loop.raw_induct [rotated, consumes 1, case_names step])
  case (step f os s w r)
  obtain c e evs w1 where
    call: "on_env (os_epoll_wait os (epoll_fd s) 1 (sint (timeout_ms s))) w = ((c, e, evs), w1)"
    by (metis surj_pair)
  note led = on_env_led [OF call]
  have rec: "on_return (\<lambda>(b, w'). led w' = led w) r" if "f os s w1 = Some r"
    using step(1) [OF that] by (simp add: led)
  show ?case
    using step(2) rec led by (auto simp: Let_def call [simplified] split: if_splits)
qed

lemma wait_for_socket_writable_led:
  "wait_for_socket_writable os s w = Some r \<Longrightarrow> on_return (\<lambda>(b, w'). led w' = led w) r"
  by (auto simp: wait_for_socket_writable_def Let_def dest!: led_dests
      elim!: on_return_seq [where P = "\<lambda>(b, w'). led w' = led w"] intro: wait_loop_led [THEN on_return_mono]
      split: if_splits prod.splits)

text \<open>The slots of the batch positions \<open>k\<close> up to \<open>n\<close> are released one by one.\<close>

definition slot_entry :: "ping_scanner \<Rightarrow> 'w ping_state \<Rightarrow> nat \<Rightarrow> u32 \<Rightarrow> bool" where
  "slot_entry s st j a \<longleftrightarrow> (\<exists>i<max_probes s. send_probe_slots st ! j = int i \<and>
     active (probe_table st ! i) \<and> dest_ip (probe_table st ! i) = a)"

lemma batch_entry_slot: "batch_entry s pad ts st j a \<Longrightarrow> slot_entry s st j a"
  by (force simp: batch_entry_def slot_entry_def)

lemma release_unsent_Cons:
  "k < n \<Longrightarrow> release_unsent s k n st = release_unsent s (Suc k) n
     ((release_probe_slot s (send_probe_slots st ! k) st)
        \<lparr>send_probe_slots := (send_probe_slots st)[k := -1]\<rparr>)"
  by (simp add: release_unsent_def upt_conv_Cons)

lemma vacate_frame:
  "results_of (vacate s i st) = results_of st" "world (vacate s i st) = world st"
  "next_host_idx (vacate s i st) = next_host_idx st" "tx_drops (vacate s i st) = tx_drops st"
  "send_probe_slots (vacate s i st) = send_probe_slots st"
  "buf_inv s (vacate s i st) = buf_inv s st"
  by (simp_all add: vacate_def results_of_def buf_inv_def Let_def)

lemma release_unsent_spec:
  assumes ok: "scanner_ok s" and "table_inv s st" and "buf_inv s st"
    and "distinct targets" and "n = length targets" and "k \<le> n"
    and "\<And>j. k \<le> j \<Longrightarrow> j < n \<Longrightarrow> slot_entry s st j (targets ! j)"
  shows "table_inv s (release_unsent s k n st) \<and> buf_inv s (release_unsent s k n st) \<and>
    inflight (release_unsent s k n st) = inflight st - set (drop k targets) \<and>
    results_of (release_unsent s k n st) = results_of st \<and>
    world (release_unsent s k n st) = world st \<and>
    tx_drops (release_unsent s k n st) = tx_drops st \<and>
    next_host_idx (release_unsent s k n st) = next_host_idx st"
  using assms(2-)
proof (induction "n - k" arbitrary: k st)
  case 0
  then show ?case by (simp add: release_unsent_def)
next
  case (Suc d)
  then have k: "k < n" by simp
  note inv = Suc.prems(1)
  obtain i where i: "i < max_probes s" "send_probe_slots st ! k = int i"
    "active (probe_table st ! i)" "dest_ip (probe_table st ! i) = targets ! k"
    using Suc.prems(6) [of k] k by (auto simp: slot_entry_def)
  have rel: "release_probe_slot s (int i) st = vacate s i st"
    using i by (simp add: release_probe_slot_eq [OF ok inv])
  define st1 where
    "st1 = (vacate s i st)\<lparr>send_probe_slots := (send_probe_slots st)[k := -1]\<rparr>"
  have step: "release_unsent s k n st = release_unsent s (Suc k) n st1"
    using release_unsent_Cons [OF k, of s st] by (simp add: i(2) rel st1_def)
  have v: "probe_table st1 = probe_table (vacate s i st)"
    "host_to_probe st1 = host_to_probe (vacate s i st)" "active_probes st1 = active_probes (vacate s i st)"
    by (simp_all add: st1_def)
  have inv1: "table_inv s st1"
    unfolding table_inv_cong [OF v] by (rule vacate_inv [OF ok inv i(1,3)])
  have fl: "inflight st1 = inflight st - {targets ! k}"
    unfolding inflight_cong [OF v(1)] vacate_inflight [OF inv i(1,3)] i(4) ..
  have frame: "results_of st1 = results_of st" "world st1 = world st"
    "next_host_idx st1 = next_host_idx st" "tx_drops st1 = tx_drops st" "buf_inv s st1"
    using vacate_frame [where s = s and i = i and st = st] Suc.prems(2)
    by (simp_all add: st1_def buf_inv_def results_of_def)
  have ent: "slot_entry s st1 j (targets ! j)" if j: "Suc k \<le> j" "j < n" for j
  proof -
    obtain m where m: "m < max_probes s" "send_probe_slots st ! j = int m"
        "active (probe_table st ! m)" "dest_ip (probe_table st ! m) = targets ! j"
      using Suc.prems(6) [of j] j by (auto simp: slot_entry_def)
    have "targets ! j \<noteq> targets ! k"
      using j k Suc.prems(3,4) by (simp add: nth_eq_iff_index_eq)
    then have "m \<noteq> i" using m(4) i(4) by auto
    then show ?thesis using m j vacate_frame(5) [of s i st]
      by (auto simp: slot_entry_def st1_def intro!: exI [of _ m])
  qed
  have "drop k targets = targets ! k # drop (Suc k) targets"
    using k Suc.prems(4) by (simp add: Cons_nth_drop_Suc)
  then have drop: "inflight st - {targets ! k} - set (drop (Suc k) targets) = inflight st - set (drop k targets)"
    by auto
  have "d = n - Suc k" using Suc.hyps(2) by simp
  from Suc.hyps(1) [OF this inv1 frame(5) Suc.prems(3,4) _ ent] k
  show ?case by (simp add: step fl frame(1-4) drop)
qed

text \<open>
  How flushing a batch ends. Sent completely, it leaves tables and host index as they are; given
  up after \<open>k\<close> messages, exactly the probes of the rest are taken back, and the index of the next
  host is lowered by their number.
\<close>

definition flushed :: "ping_scanner \<Rightarrow> 'w ping_state \<Rightarrow> u32 list \<Rightarrow> bool \<times> 'w ping_state \<Rightarrow> bool" where
  "flushed s st targets q \<longleftrightarrow> (case q of (b, st') \<Rightarrow>
     table_inv s st' \<and> buf_inv s st' \<and> results_of st' = results_of st \<and>
     led (world st') = led (world st) \<and>
     (if b then inflight st' = inflight st \<and> next_host_idx st' = next_host_idx st
      else \<exists>k<length targets. inflight st' = inflight st - set (drop k targets) \<and>
        next_host_idx st' = size_sub (next_host_idx st) (length targets - k)))"

lemma same_but_world_table:
  assumes "same_but_world st st'"
  shows "table_inv s st' = table_inv s st" "buf_inv s st' = buf_inv s st"
    "results_of st' = results_of st" "led (world st') = led (world st)" "inflight st' = inflight st"
    "next_host_idx st' = next_host_idx st" "slot_entry s st' = slot_entry s st"
  using assms
  by (auto elim!: same_but_worldE simp: table_inv_def buf_inv_def results_of_def inflight_def
      slot_entry_def fun_eq_iff)

lemma give_up_flushed:
  assumes ok: "scanner_ok s" and inv: "table_inv s st" "buf_inv s st"
    and t: "distinct targets" "\<And>j. j < length targets \<Longrightarrow> slot_entry s st j (targets ! j)"
    and same: "same_but_world st st1" and k: "k < length targets"
  shows "flushed s st targets (False, give_up s k (length targets) st1)"
proof -
  note eq = same_but_world_table [OF same]
  have r: "table_inv s (release_unsent s k (length targets) st1) \<and> buf_inv s (release_unsent s k (length targets) st1) \<and>
    inflight (release_unsent s k (length targets) st1) = inflight st1 - set (drop k targets) \<and>
    results_of (release_unsent s k (length targets) st1) = results_of st1 \<and>
    world (release_unsent s k (length targets) st1) = world st1 \<and>
    tx_drops (release_unsent s k (length targets) st1) = tx_drops st1 \<and>
    next_host_idx (release_unsent s k (length targets) st1) = next_host_idx st1"
    by (rule release_unsent_spec [OF ok]) (use inv t k in \<open>auto simp: eq\<close>)
  have "table_inv s (give_up s k (length targets) st1)" "buf_inv s (give_up s k (length targets) st1)"
    "inflight (give_up s k (length targets) st1) = inflight st1 - set (drop k targets)"
    using r by (auto simp: give_up_def Let_def table_inv_def buf_inv_def inflight_def)
  with r eq k show ?thesis
    by (auto simp: flushed_def give_up_def Let_def results_of_def)
qed

lemma clear_sent_flushed:
  assumes inv: "table_inv s st" "buf_inv s st" and same: "same_but_world st st1"
  shows "flushed s st targets (True, clear_sent n st1)"
proof -
  have len: "length (fold (\<lambda>i xs. xs[i := -1]) is xs) = length xs" for "is" and xs :: "int list"
    by (induction "is" arbitrary: xs) simp_all
  note eq = same_but_world_table [OF same]
  have "table_inv s (clear_sent n st1) = table_inv s st1" "buf_inv s (clear_sent n st1) = buf_inv s st1"
    "inflight (clear_sent n st1) = inflight st1" "results_of (clear_sent n st1) = results_of st1"
    by (auto simp: clear_sent_def table_inv_def buf_inv_def inflight_def results_of_def len)
  with eq inv show ?thesis by (simp add: flushed_def clear_sent_def)
qed

lemma flush_loop_spec:
  assumes "flush_loop os s n k st1 = Some r" and "same_but_world st st1"
    and "scanner_ok s" and "table_inv s st" "buf_inv s st" and "n = length targets"
    and "distinct targets" and "\<And>j. j < length targets \<Longrightarrow> slot_entry s st j (targets ! j)"
  shows "on_return (flushed s st targets) r"
  using assms
proof (induction os s n k st1 r rule: flush_loop.raw_induct [rotated, consumes 1, case_names step])
  case (step f os s n k st1 r)
  note same = step.prems(1) and pre = step.prems(2-)
  show ?case
  proof (cases "k < n")
    case False
    with step.hyps clear_sent_flushed [OF pre(2,3) same] show ?thesis by auto
  next
    case k: True
    then have k': "k < length targets" using pre(4) by simp
    have giving: "flushed s st targets (False, give_up s k n st')" if "same_but_world st st'" for st'
      unfolding pre(4) by (rule give_up_flushed [OF pre(1-3) pre(5,6) that k'])
    obtain sent e w where
      call: "on_env (os_sendmmsg os (sock s) (map (message_at st1) [k..<n])) (world st1) = ((sent, e), w)"
      by (metis surj_pair)
    define st2 where "st2 = st1\<lparr>world := w\<rparr>"
    have same2: "same_but_world st st2"
      unfolding st2_def by (rule same_but_world_step(1) [OF same on_env_led [OF call]])
    have IH: "on_return (flushed s st targets) r" if "f os s n k' st' = Some r" "same_but_world st st'" for k' st' r
      by (rule step.IH [OF that pre])
    consider (sent) "0 < sent" | (wait) "\<not> 0 < sent" "e = EAGAIN" | (err) "\<not> 0 < sent" "e \<noteq> EAGAIN" by blast
    then show ?thesis
    proof cases
      case sent
      with step.hyps k call have "f os s n (k + nat sent) st2 = Some r" by (simp add: Let_def st2_def)
      then show ?thesis by (rule IH [OF _ same2])
    next
      case err
      have "same_but_world st (report_send_error os e st2)"
        unfolding report_send_error_def
        by (rule same_but_world_step(1) [OF same2]) (simp add: sys_call_def split: prod.splits)
      then have "flushed s st targets (False, give_up s k n (report_send_error os e st2))" by (rule giving)
      moreover have "r = Inr (False, give_up s k n (report_send_error os e st2))"
        using step.hyps k call err by (simp add: Let_def st2_def)
      ultimately show ?thesis by simp
    next
      case wait
      define st3 where "st3 = st2\<lparr>tx_drops := tx_drops st2 + 1\<rparr>"
      have same3: "same_but_world st st3" unfolding st3_def by (rule same_but_world_step(2) [OF same2])
      have "seq (wait_for_socket_writable os s (world st3)) (\<lambda>(writable, w2).
          if \<not> writable then Some (Inr (False, give_up s k n (st3\<lparr>world := w2\<rparr>)))
          else f os s n k (st3\<lparr>world := w2\<rparr>)) = Some r"
        using step.hyps k call wait unfolding st3_def st2_def by (simp add: Let_def split_def cong: if_cong)
      then show ?thesis
      proof (rule on_return_seq)
        show "on_return (\<lambda>(b, w'). led w' = led (world st3)) q"
          if "wait_for_socket_writable os s (world st3) = Some q" for q
          using that by (rule wait_for_socket_writable_led)
        fix bw and r :: "fault + bool \<times> 'a ping_state"
        assume bw: "case bw of (b, w') \<Rightarrow> led w' = led (world st3)"
          and go: "(case bw of (writable, w2) \<Rightarrow>
            if \<not> writable then Some (Inr (False, give_up s k n (st3\<lparr>world := w2\<rparr>)))
            else f os s n k (st3\<lparr>world := w2\<rparr>)) = Some r"
        obtain b w2 where eq: "bw = (b, w2)" by (cases bw)
        have same4: "same_but_world st (st3\<lparr>world := w2\<rparr>)"
          using bw eq same_but_world_step(1) [OF same3] by simp
        show "on_return (flushed s st targets) r"
          using go eq giving [OF same4] IH [OF _ same4] by (cases b) auto
      qed
    qed
  qed
qed


section \<open>Lemmas: one call of send-batch\<close>

text \<open>
  What \<^verbatim>\<open>send_batch\<close> comes to: nothing but a faulting system call can fault, results are not
  touched, and the probes in flight are those of before and, for a batch that was sent, the wanted
  hosts among the next ones; for a batch that was given up, the first \<open>k\<close> of them.
\<close>

definition batch_sent :: "ping_scanner \<Rightarrow> 'w ping_state \<Rightarrow> bool \<times> 'w ping_state \<Rightarrow> bool" where
  "batch_sent s st q \<longleftrightarrow> (case q of (b, st') \<Rightarrow>
     table_inv s st' \<and> buf_inv s st' \<and> results_of st' = results_of st \<and>
     led (world st') = led (world st) \<and>
     (\<exists>m new. next_host_idx st \<le> m \<and> m \<le> total_hosts s \<and>
        new = filter (wanted s st) (map (host_ip s) [next_host_idx st..<m]) \<and>
        length new \<le> send_count s \<and> card (inflight st \<union> set new) \<le> max_probes s \<and>
        (if b then next_host_idx st' = m \<and> inflight st' = inflight st \<union> set new
         else \<exists>k<length new. next_host_idx st' = size_sub m (length new - k) \<and>
           inflight st' = inflight st \<union> set (take k new))))"

lemma send_batch_spec:
  assumes ok: "scanner_ok s" "packet_ok s" and inv: "table_inv s st" "buf_inv s st"
    and idx: "next_host_idx st \<le> total_hosts s"
    and run: "send_batch os pad s st = Some r"
  shows "on_return (batch_sent s st) r"
proof -
  obtain ts w where clk: "on_env (os_clock_gettime os) (world st) = (ts, w)" by (metis surj_pair)
  define st0 where "st0 = st\<lparr>world := w\<rparr>"
  have same0: "same_but_world st st0"
    unfolding st0_def by (rule same_but_world_step(1)) (simp_all add: on_env_led [OF clk])
  note eq0 = same_but_world_table [OF same0]
  have w0: "wanted s st0 = wanted s st" by (simp add: wanted_def fun_eq_iff eq0(5) st0_def inflight_def)
  have pre0: "table_inv s st0" "buf_inv s st0" "next_host_idx st0 \<le> total_hosts s"
    "batch_inv s pad ts st0 []" using inv idx by (simp_all add: eq0 batch_inv_def)
  obtain st1 new where pop: "populate_batch_entries os pad s ts (st0, 0) = Inr (st1, length new)"
    and p: "populated s pad ts st0 [] st1 new"
    using populate_spec [OF ok pre0(1,2,4,3), of os] by auto
  note P = p [unfolded populated_def append_Nil]
  have "active_probes st1 \<le> max_probes s"
    using P count_active_le [of "probe_table st1"] by (metis table_invD(1,3))
  then have room: "card (inflight st \<union> set new) \<le> max_probes s"
    using P active_probes_inflight [of s st1] by (simp add: eq0)
  show ?thesis
  proof (cases "new = []")
    case True
    then have "r = Inr (True, st1)" using run pop by (simp add: send_batch_def clk st0_def)
    moreover have "batch_sent s st (True, st1)"
      unfolding batch_sent_def prod.case if_True
      by (intro conjI exI [of _ "next_host_idx st1"] exI [of _ new]) (use P True room in \<open>simp_all add: w0 eq0\<close>)
    ultimately show ?thesis by simp
  next
    case False
    then have go: "flush_loop os s (length new) 0 st1 = Some r"
      using run pop by (simp add: send_batch_def clk st0_def flush_send_queue_def)
    have base: "results_of st1 = results_of st" "led (world st1) = led (world st)"
      "inflight st1 = inflight st \<union> set new" "length new \<le> send_count s" "distinct new"
      "next_host_idx st \<le> next_host_idx st1" "next_host_idx st1 \<le> total_hosts s"
      "new = filter (wanted s st) (map (host_ip s) [next_host_idx st..<next_host_idx st1])"
      "table_inv s st1" "buf_inv s st1" "\<forall>j<length new. batch_entry s pad ts st1 j (new ! j)"
      using P unfolding w0 eq0 batch_inv_def by blast+
    then have slots: "slot_entry s st1 j (new ! j)" if "j < length new" for j
      using that by (intro batch_entry_slot) blast
    have fl: "on_return (flushed s st1 new) r"
      by (rule flush_loop_spec [OF go same_but_world_refl ok(1) base(9,10) refl base(5) slots])
    have fresh: "set new \<inter> inflight st = {}" by (subst base(8)) (auto simp: wanted_def)
    have taken: "inflight st \<union> set new - set (drop k new) = inflight st \<union> set (take k new)" for k
    proof -
      have "set (take k new) \<inter> set (drop k new) = {}"
        using base(5) by (rule set_take_disj_set_drop_if_distinct) simp
      moreover have "set new = set (take k new) \<union> set (drop k new)"
        by (metis append_take_drop_id set_append)
      ultimately show ?thesis using fresh by auto
    qed
    show ?thesis
    proof (rule on_return_mono [OF fl])
      fix q assume q: "flushed s st1 new q"
      obtain b st' where bs: "q = (b, st')" by (cases q)
      have F: "table_inv s st'" "buf_inv s st'" "results_of st' = results_of st"
        "led (world st') = led (world st)"
        "if b then inflight st' = inflight st1 \<and> next_host_idx st' = next_host_idx st1
         else \<exists>k<length new. inflight st' = inflight st1 - set (drop k new) \<and>
           next_host_idx st' = size_sub (next_host_idx st1) (length new - k)"
        using q unfolding bs flushed_def prod.case base(1,2) by blast+
      have "if b then next_host_idx st' = next_host_idx st1 \<and> inflight st' = inflight st \<union> set new
         else \<exists>k<length new. next_host_idx st' = size_sub (next_host_idx st1) (length new - k) \<and>
           inflight st' = inflight st \<union> set (take k new)"
        using F(5) unfolding base(3) taken by meson
      with F(1-4) base(4,6-8) room show "batch_sent s st q"
        unfolding bs batch_sent_def prod.case
        by (intro conjI exI [of _ "next_host_idx st1"] exI [of _ new]) assumption+
    qed
  qed
qed


text \<open>
  No batch is ever written outside the buffers: the only faults are failed \<^verbatim>\<open>epoll\<close> calls while
  waiting for the socket.
\<close>

lemma wait_for_socket_writable_fault:
  "wait_for_socket_writable os s w = Some (Inl f) \<Longrightarrow> \<exists>e what. f = System_error e what"
proof -
  have loop: "\<exists>e what. f = System_error e what" if "wait_loop os s w = Some r" "r = Inl f" for w r f
    using that
  proof (induction os s w r rule: wait_loop.raw_induct [rotated, consumes 1, case_names step])
    case (step g os s w r)
    obtain c e evs w1 where
      call: "on_env (os_epoll_wait os (epoll_fd s) 1 (sint (timeout_ms s))) w = ((c, e, evs), w1)"
      by (metis surj_pair)
    show ?case
      using step.hyps step.prems step.IH [of os s w1] by (auto simp: Let_def call [simplified] split: if_splits)
  qed
  show "wait_for_socket_writable os s w = Some (Inl f) \<Longrightarrow> \<exists>e what. f = System_error e what"
    by (auto simp: wait_for_socket_writable_def Let_def seq_def dest: loop
        split: if_splits prod.splits option.splits sum.splits)
qed

lemma flush_loop_fault:
  "flush_loop os s n k st = Some r \<Longrightarrow> r = Inl f \<Longrightarrow> \<exists>e what. f = System_error e what"
proof (induction os s n k st r rule: flush_loop.raw_induct [rotated, consumes 1, case_names step])
  case (step g os s n k st r)
  then show ?case
    by (fastforce simp: Let_def seq_def dest: wait_for_socket_writable_fault
        split: if_splits prod.splits option.splits sum.splits)
qed

section \<open>When sending makes progress\<close>

lemma flush_loop_returns:
  assumes "\<And>msgs v. msgs \<noteq> [] \<Longrightarrow> 0 < fst (fst (os_sendmmsg os (sock s) msgs v))"
  shows "\<exists>w. flush_loop os s n k st = Some (Inr (True, clear_sent n (st\<lparr>world := w\<rparr>)))"
proof (induction "n - k" arbitrary: k st rule: less_induct)
  case less
  show ?case
  proof (cases "k < n")
    case False
    then have "flush_loop os s n k st = Some (Inr (True, clear_sent n (st\<lparr>world := world st\<rparr>)))"
      by (simp add: flush_loop.simps)
    then show ?thesis by blast
  next
    case True
    let ?msgs = "map (message_at st) [k..<n]"
    obtain c e w where call: "on_env (os_sendmmsg os (sock s) ?msgs) (world st) = ((c, e), w)" by (metis surj_pair)
    have "0 < c"
      using assms [of ?msgs "env (world st)"] call True by (auto simp: on_env_def split: prod.splits)
    then have "flush_loop os s n k st = flush_loop os s n (k + nat c) (st\<lparr>world := w\<rparr>)"
      using True call by (subst flush_loop.simps) simp
    moreover have "n - (k + nat c) < n - k" using \<open>0 < c\<close> True by simp
    ultimately show ?thesis using less [of "k + nat c" "st\<lparr>world := w\<rparr>"] by auto
  qed
qed

end
