(* ===== verification/Ping_Recv.thy ===== *)
theory Ping_Recv
  imports Ping_Send
begin

text \<open>
  The receiving half of the ping scanner: the ancillary data of a datagram
  (\<^verbatim>\<open>extract_control_data\<close>), what one datagram does (\<^verbatim>\<open>process_received_packet\<close>), the loop around
  \<^verbatim>\<open>recvmmsg\<close> (\<^verbatim>\<open>receive_responses\<close>), and the sweep for overdue probes
  (\<^verbatim>\<open>reap_timed_out_probes\<close>). A fault is the signed overflow of an elapsed-time computation; the
  receive loop runs as long as the kernel delivers full batches.
\<close>

section \<open>Ancillary data\<close>

definition IPPROTO_IP :: int where "IPPROTO_IP = 0"
definition IP_TTL :: int where "IP_TTL = 2"
definition SOL_SOCKET :: int where "SOL_SOCKET = 1"
definition SCM_TIMESTAMPNS :: int where "SCM_TIMESTAMPNS = 35"
definition SCM_RXQ_OVFL :: int where "SCM_RXQ_OVFL = 40"

definition get_timespec :: "u8 list \<Rightarrow> timespec" where
  "get_timespec d =
     \<lparr>tv_sec = sint (get_u64 (take 8 d)), tv_nsec = sint (get_u64 (take 8 (drop 8 d)))\<rparr>"

text \<open>One control message; the state is \<open>(ttl, recv_ts, has_recv_ts, rx_queue_overflows)\<close>.\<close>

fun control_step :: "cmsg \<Rightarrow> int \<times> timespec \<times> bool \<times> u32 \<Rightarrow> int \<times> timespec \<times> bool \<times> u32" where
  "control_step c (ttl_v, recv_ts, has_recv_ts, overflows) =
     (let ttl1 = (if cm_level c = IPPROTO_IP \<and> cm_type c = IP_TTL
                  then sint (get_u32 (take 4 (cm_data c))) else ttl_v);
          stamp = (cm_level c = SOL_SOCKET \<and> cm_type c = SCM_TIMESTAMPNS);
          ts1 = (if stamp then get_timespec (cm_data c) else recv_ts);
          ovf1 = (if cm_level c = SOL_SOCKET \<and> cm_type c = SCM_RXQ_OVFL
                  then max (get_u32 (take 4 (cm_data c))) overflows else overflows)
      in (ttl1, ts1, has_recv_ts \<or> stamp, ovf1))"

definition extract_control_data ::
    "'w os \<Rightarrow> rx_msg \<Rightarrow> 'w ping_state \<Rightarrow> int \<times> timespec \<times> 'w ping_state" where
  "extract_control_data os msg st =
     (let (ttl_v, recv_ts, has_recv_ts, overflows) =
            fold control_step (rx_cmsgs msg)
              (-1, \<lparr>tv_sec = 0, tv_nsec = 0\<rparr>, False, rx_queue_overflows st);
          st1 = st\<lparr>rx_queue_overflows := overflows\<rparr>
      in if \<not> has_recv_ts
         then (let (now, w) = on_env (os_clock_gettime os) (world st1)
               in (ttl_v, now, st1\<lparr>world := w\<rparr>))
         else (ttl_v, recv_ts, st1))"

section \<open>One datagram\<close>

definition payload_time :: "PingPayload \<Rightarrow> timespec" where
  "payload_time p = \<lparr>tv_sec = sint (send_sec p), tv_nsec = sint (send_nsec p)\<rparr>"

text \<open>A datagram is not counted as found: one more unmatched reply.\<close>

definition unmatched :: "'w ping_state \<Rightarrow> 'w ping_state" where
  "unmatched st = st\<lparr>unmatched_replies := unmatched_replies st + 1\<rparr>"

text \<open>The slot that still holds the host, if any, is cleared.\<close>

definition clear_reply_slot :: "nat \<Rightarrow> u32 \<Rightarrow> 'w ping_state \<Rightarrow> 'w ping_state" where
  "clear_reply_slot host_idx target st =
     (let slot = host_to_probe st ! host_idx
      in if slot \<ge> 0 \<and> nat slot < length (probe_table st) then
           (let p = probe_table st ! nat slot;
                st1 = (if active p \<and> dest_ip p = target
                       then st\<lparr>probe_table := (probe_table st)[nat slot := p\<lparr>active := False\<rparr>],
                               active_probes := (if active_probes st > 0 then active_probes st - 1 else 0)\<rparr>
                       else st)
            in st1\<lparr>host_to_probe := (host_to_probe st1)[host_idx := -1]\<rparr>)
         else st)"

definition record_reply ::
    "'w os \<Rightarrow> ping_scanner \<Rightarrow> u32 \<Rightarrow> nat \<Rightarrow> int \<Rightarrow> int \<Rightarrow> 'w ping_state \<Rightarrow> 'w ping_state" where
  "record_reply os s target host_idx d ttl_v st =
     (let st1 = st\<lparr>found_ips_cache := found_ips_cache st @ [target],
                   hosts_found := Suc (hosts_found st)\<rparr>;
          st2 = clear_reply_slot host_idx target st1;
          src_str = format_ip (os_inet_ntop os) target [] INET_ADDRSTRLEN;
          (name, w) = (if resolve_dns s then resolve_hostname os target (world st2)
                       else (''N/A'', world st2));
          result = \<lparr>ip = target, ip_str = src_str, hostname = name, rtt_ms = rtt_of d, ttl = ttl_v\<rparr>
      in st2\<lparr>world := w,
             reported := (if has_callback s then reported st2 @ [result] else reported st2),
             scan_results := scan_results st2 @ [result]\<rparr>)"

definition process_received_packet ::
    "'w os \<Rightarrow> ping_scanner \<Rightarrow> rx_msg \<Rightarrow> timespec \<Rightarrow> int \<Rightarrow> 'w ping_state \<Rightarrow> fault + 'w ping_state" where
  "process_received_packet os s msg recv_ts ttl_v st =
     (if length (rx_data msg) < sizeof_IcmpHdr + sizeof_PingPayload then Inr (unmatched st)
      else
        let recved_icmp = get_IcmpHdr (take sizeof_IcmpHdr (rx_data msg))
        in if icmp_type recved_icmp \<noteq> ICMP_ECHOREPLY then Inr st
           else
             let st1 = st\<lparr>echo_replies := echo_replies st + 1\<rparr>;
                 actual_src_ip = ntohl (rx_addr msg);
                 payload_data =
                   get_PingPayload (take sizeof_PingPayload (drop sizeof_IcmpHdr (rx_data msg)))
             in if actual_src_ip \<noteq> target_ip payload_data then Inr (unmatched st1)
                else
                  let host_idx = host_index_for_ip s (target_ip payload_data)
                  in if host_idx < 0 then Inr (unmatched st1)
                     else if is_host_found st1 (target_ip payload_data) then Inr (unmatched st1)
                     else (case diff_ns recv_ts (payload_time payload_data) of
                         None \<Rightarrow> Inl Signed_overflow
                       | Some d \<Rightarrow>
                           Inr (record_reply os s (target_ip payload_data) (nat host_idx) d ttl_v st1)))"

section \<open>Receiving\<close>

fun process_messages ::
    "'w os \<Rightarrow> ping_scanner \<Rightarrow> rx_msg list \<Rightarrow> 'w ping_state \<Rightarrow> fault + 'w ping_state" where
  "process_messages os s [] st = Inr st"
| "process_messages os s (m # ms) st =
     (if length (rx_data m) < sizeof_IcmpHdr then process_messages os s ms st
      else
        let (ttl_v, recv_ts, st1) = extract_control_data os m st
        in case process_received_packet os s m recv_ts ttl_v st1 of
             Inl e \<Rightarrow> Inl e
           | Inr st2 \<Rightarrow> process_messages os s ms st2)"

text \<open>
  The kernel fills at most \<^verbatim>\<open>recv_batch_size_\<close> message headers and returns how many; headers it
  did not fill have length 0 and are skipped, so only the filled ones are listed.
\<close>

partial_function (option) receive_loop ::
    "'w os \<Rightarrow> ping_scanner \<Rightarrow> 'w ping_state \<Rightarrow> 'w ping_state outcome" where
  "receive_loop os s st =
     (let ((recvd, e, msgs), w) =
            on_env (os_recvmmsg os (sock s) (recv_batch_size s)) (world st);
          st1 = st\<lparr>world := w\<rparr>
      in if recvd < 0 then
           (if e = EAGAIN \<or> e = EWOULDBLOCK then Some (Inr st1)
            else Some (Inr (st1\<lparr>world := snd (sys_call os (Perror ''recvmmsg'') w)\<rparr>)))
         else if recvd = 0 then Some (Inr st1)
         else seq (Some (process_messages os s (take (nat recvd) msgs) st1)) (\<lambda>st2.
                if nat recvd < recv_batch_size s then Some (Inr st2)
                else receive_loop os s st2))"

definition receive_responses ::
    "'w os \<Rightarrow> ping_scanner \<Rightarrow> bool \<Rightarrow> 'w ping_state \<Rightarrow> 'w ping_state outcome" where
  "receive_responses os s blocking st =
     (if blocking then
        (let ((sel, e, evs), w) =
               on_env (os_epoll_wait os (epoll_fd s) 1 EPOLL_TIMEOUT_MS) (world st);
             events = (case evs of [] \<Rightarrow> 0 | ev # _ \<Rightarrow> ep_events ev);
             st1 = st\<lparr>world := w\<rparr>
         in if sel \<le> 0 \<or> events AND EPOLLIN = 0 then Some (Inr st1)
            else receive_loop os s st1)
      else receive_loop os s st)"

section \<open>Overdue probes\<close>

definition reap_slot ::
    "ping_scanner \<Rightarrow> timespec \<Rightarrow> nat \<Rightarrow> 'w ping_state \<Rightarrow> fault + 'w ping_state" where
  "reap_slot s current_time slot st =
     (let p = probe_table st ! slot in
      if \<not> active p then Inr st
      else case diff_ns current_time (send_time p) of
          None \<Rightarrow> Inl Signed_overflow
        | Some elapsed_ns \<Rightarrow>
            if elapsed_ns > timeout_ns (timeout_ms s) then
              (let host_idx = host_index_for_ip s (dest_ip p);
                   h2p = (if host_idx \<ge> 0 \<and> host_to_probe st ! nat host_idx = cast_int slot
                          then (host_to_probe st)[nat host_idx := -1] else host_to_probe st)
               in Inr (st\<lparr>host_to_probe := h2p,
                          probe_table := (probe_table st)[slot := p\<lparr>active := False\<rparr>],
                          active_probes := (if active_probes st > 0 then active_probes st - 1 else 0),
                          probe_timeouts := probe_timeouts st + 1\<rparr>))
            else Inr st)"

fun reap_slots ::
    "ping_scanner \<Rightarrow> timespec \<Rightarrow> nat list \<Rightarrow> 'w ping_state \<Rightarrow> fault + 'w ping_state" where
  "reap_slots s current_time [] st = Inr st"
| "reap_slots s current_time (slot # rest) st =
     (case reap_slot s current_time slot st of
        Inl e \<Rightarrow> Inl e
      | Inr st1 \<Rightarrow> reap_slots s current_time rest st1)"

definition reap_timed_out_probes ::
    "'w os \<Rightarrow> ping_scanner \<Rightarrow> 'w ping_state \<Rightarrow> fault + 'w ping_state" where
  "reap_timed_out_probes os s st =
     (let (current_time, w) = on_env (os_clock_gettime os) (world st);
          st1 = st\<lparr>world := w\<rparr>
      in reap_slots s current_time [0..<length (probe_table st1)] st1)"

section \<open>The scan invariant\<close>

text \<open>
  What the results are: one for every address of the cache of found addresses, in that order, no
  address twice, all of them targets, none with a probe still in flight; and every result was
  handed to the callback, when there is one.
\<close>

definition found_inv :: "ping_scanner \<Rightarrow> 'w ping_state \<Rightarrow> bool" where
  "found_inv s st \<longleftrightarrow>
     found_ips_cache st = map ip (scan_results st) \<and> distinct (found_ips_cache st) \<and>
     hosts_found st = length (scan_results st) \<and>
     (\<forall>r\<in>set (scan_results st). in_range s (ip r) \<and> 0 \<le> rtt_ms r) \<and>
     set (found_ips_cache st) \<inter> inflight st = {} \<and>
     reported st = (if has_callback s then scan_results st else [])"

definition ping_inv :: "ping_scanner \<Rightarrow> 'w ping_state \<Rightarrow> bool" where
  "ping_inv s st \<longleftrightarrow> table_inv s st \<and> buf_inv s st \<and> found_inv s st \<and> next_host_idx st \<le> total_hosts s"

lemma ping_invD:
  assumes "ping_inv s st"
  shows "table_inv s st" "buf_inv s st" "found_inv s st" "next_host_idx st \<le> total_hosts s"
  using assms by (auto simp: ping_inv_def)

text \<open>What receiving may change: results are added, and the probes of the hosts found are gone.\<close>

definition received :: "ping_scanner \<Rightarrow> 'w ping_state \<Rightarrow> 'w ping_state \<Rightarrow> bool" where
  "received s st st' \<longleftrightarrow> ping_inv s st' \<and>
     next_host_idx st' = next_host_idx st \<and> next_seq st' = next_seq st \<and>
     tx_drops st' = tx_drops st \<and> probe_timeouts st' = probe_timeouts st \<and>
     led (world st') = led (world st) \<and>
     (\<exists>rs. scan_results st' = scan_results st @ rs \<and> inflight st' = inflight st - ip ` set rs)"

lemma received_inv: "received s st st' \<Longrightarrow> ping_inv s st'"
  by (simp add: received_def)

lemma received_refl: "ping_inv s st \<Longrightarrow> received s st st"
  by (simp add: received_def)

lemma received_trans:
  assumes "received s st st1" and "received s st1 st2"
  shows "received s st st2"
proof -
  obtain rs1 rs2 where
    "scan_results st1 = scan_results st @ rs1" "inflight st1 = inflight st - ip ` set rs1"
    "scan_results st2 = scan_results st1 @ rs2" "inflight st2 = inflight st1 - ip ` set rs2"
    using assms unfolding received_def by blast
  then have "scan_results st2 = scan_results st @ (rs1 @ rs2) \<and>
      inflight st2 = inflight st - ip ` set (rs1 @ rs2)" by auto
  with assms show ?thesis unfolding received_def by metis
qed

lemma ping_inv_cong:
  assumes "probe_table st' = probe_table st" "host_to_probe st' = host_to_probe st"
    "active_probes st' = active_probes st" "buf_inv s st' = buf_inv s st"
    "found_ips_cache st' = found_ips_cache st" "scan_results st' = scan_results st"
    "hosts_found st' = hosts_found st" "reported st' = reported st"
    "next_host_idx st' = next_host_idx st"
  shows "ping_inv s st' = ping_inv s st"
  unfolding ping_inv_def found_inv_def assms inflight_def table_inv_def ..

lemma received_counters:
  assumes "ping_inv s st"
  shows "received s st (st\<lparr>unmatched_replies := u\<rparr>)" "received s st (st\<lparr>echo_replies := u\<rparr>)"
    "received s st (st\<lparr>rx_queue_overflows := v\<rparr>)"
    "led w = led (world st) \<Longrightarrow> received s st (st\<lparr>world := w\<rparr>)"
  using assms
  by (auto simp: received_def inflight_def buf_inv_def intro!: ping_inv_cong [THEN iffD2, of _ st])

lemma clear_reply_slot_eq:
  assumes inv: "table_inv s st" and r: "in_range s a"
  shows "clear_reply_slot (host_no s a) a st =
    (if host_to_probe st ! host_no s a = -1 then st
     else vacate s (nat (host_to_probe st ! host_no s a)) st)"
proof (cases "host_to_probe st ! host_no s a = -1")
  case True
  then show ?thesis by (simp add: clear_reply_slot_def)
next
  case False
  obtain i where i: "i < max_probes s" "host_to_probe st ! host_no s a = int i"
    "active (probe_table st ! i)" "dest_ip (probe_table st ! i) = host_ip s (host_no s a)"
    by (rule table_inv_host [OF inv host_no_less [OF r] False])
  with False r table_invD(1) [OF inv] show ?thesis
    by (simp add: clear_reply_slot_def vacate_def host_ip_host_no)
qed

lemma clear_reply_slot_inv:
  assumes ok: "scanner_ok s" and inv: "table_inv s st" and r: "in_range s a"
  shows "table_inv s (clear_reply_slot (host_no s a) a st)"
    "inflight (clear_reply_slot (host_no s a) a st) = inflight st - {a}"
proof -
  have a: "host_ip s (host_no s a) = a" using r by (rule host_ip_host_no)
  have "table_inv s (clear_reply_slot (host_no s a) a st) \<and>
    inflight (clear_reply_slot (host_no s a) a st) = inflight st - {a}"
  proof (cases "host_to_probe st ! host_no s a = -1")
    case True
    then have "a \<notin> inflight st"
      using host_to_probe_inflight(1) [OF ok inv host_no_less [OF r]] a by simp
    with True inv show ?thesis by (simp add: clear_reply_slot_eq [OF inv r])
  next
    case False
    obtain i where i: "i < max_probes s" "host_to_probe st ! host_no s a = int i"
      "active (probe_table st ! i)" "dest_ip (probe_table st ! i) = host_ip s (host_no s a)"
      by (rule table_inv_host [OF inv host_no_less [OF r] False])
    then show ?thesis
      using vacate_inv [OF ok inv i(1,3)] vacate_inflight [OF inv i(1,3)] a
      by (simp add: clear_reply_slot_eq [OF inv r])
  qed
  then show "table_inv s (clear_reply_slot (host_no s a) a st)"
    "inflight (clear_reply_slot (host_no s a) a st) = inflight st - {a}" by auto
qed

text \<open>A fresh reply: the host's result is added at the end, its probe is gone.\<close>

lemma record_reply_received:
  assumes ok: "scanner_ok s" and inv: "ping_inv s st" and r: "in_range s a"
    and fresh: "a \<notin> set (found_ips_cache st)"
  shows "received s st (record_reply os s a (host_no s a) d t st)"
    and "found_ips_cache (record_reply os s a (host_no s a) d t st) = found_ips_cache st @ [a]"
proof -
  define st1 where "st1 = st\<lparr>found_ips_cache := found_ips_cache st @ [a], hosts_found := Suc (hosts_found st)\<rparr>"
  define st2 where "st2 = clear_reply_slot (host_no s a) a st1"
  note I = ping_invD [OF inv]
  have t1: "table_inv s st1" using I(1) by (simp add: table_inv_def st1_def)
  have clr: "table_inv s st2" "inflight st2 = inflight st1 - {a}"
    unfolding st2_def by (rule clear_reply_slot_inv [OF ok t1 r])+
  have same: "results_of st2 = results_of st1" "world st2 = world st" "next_host_idx st2 = next_host_idx st"
    "next_seq st2 = next_seq st" "tx_drops st2 = tx_drops st" "buf_inv s st2 = buf_inv s st"
    "found_ips_cache st2 = found_ips_cache st @ [a]" "hosts_found st2 = Suc (hosts_found st)"
    "scan_results st2 = scan_results st" "reported st2 = reported st" "probe_timeouts st2 = probe_timeouts st"
    by (simp_all add: st2_def clear_reply_slot_def st1_def results_of_def buf_inv_def Let_def)
  obtain name w where nm: "(if resolve_dns s then resolve_hostname os a (world st2)
      else (''N/A'', world st2)) = (name, w)" by (metis surj_pair)
  have led: "led w = led (world st)"
    using nm same(2) by (auto simp: resolve_hostname_def Let_def dest!: led_dests split: if_splits prod.splits)
  define result where "result = \<lparr>ip = a, ip_str = format_ip (os_inet_ntop os) a [] INET_ADDRSTRLEN,
     hostname = name, rtt_ms = rtt_of d, ttl = t\<rparr>"
  define st3 where "st3 = st2\<lparr>world := w,
      reported := (if has_callback s then reported st2 @ [result] else reported st2),
      scan_results := scan_results st2 @ [result]\<rparr>"
  have eq: "record_reply os s a (host_no s a) d t st = st3"
    unfolding record_reply_def Let_def st1_def [symmetric] st2_def [symmetric] nm prod.case
      result_def st3_def ..
  have fl: "inflight st1 = inflight st" by (simp add: st1_def inflight_def)
  have res: "ip result = a" "0 \<le> rtt_ms result" by (simp_all add: result_def rtt_of_nonneg)
  have s3: "inflight st3 = inflight st - {a}" "table_inv s st3" "buf_inv s st3"
    "found_ips_cache st3 = found_ips_cache st @ [a]" "scan_results st3 = scan_results st @ [result]"
    "hosts_found st3 = Suc (hosts_found st)" "next_host_idx st3 = next_host_idx st"
    "reported st3 = (if has_callback s then reported st @ [result] else reported st)"
    "next_seq st3 = next_seq st" "tx_drops st3 = tx_drops st" "probe_timeouts st3 = probe_timeouts st"
    "world st3 = w"
    using clr I(2) same(6) same
    by (simp_all add: st3_def inflight_def table_inv_def buf_inv_def fl [unfolded inflight_def])
  have "\<forall>r\<in>set (scan_results st). ip r \<notin> inflight st" using I(3) by (auto simp: found_inv_def disjoint_iff)
  then have "found_inv s st3"
    using I(3) fresh r res by (auto simp: found_inv_def s3)
  then show "received s st (record_reply os s a (host_no s a) d t st)"
    using I(4) led res by (simp add: received_def ping_inv_def eq s3)
  show "found_ips_cache (record_reply os s a (host_no s a) d t st) = found_ips_cache st @ [a]"
    by (simp add: eq s3)
qed


section \<open>Lemmas: datagrams\<close>

text \<open>
  The datagrams that add a result: long enough, an echo reply, from the address its payload names,
  a target of the scan, not yet found.
\<close>

definition reply_header :: "rx_msg \<Rightarrow> IcmpHdr" where
  "reply_header m = get_IcmpHdr (take sizeof_IcmpHdr (rx_data m))"

definition reply_payload :: "rx_msg \<Rightarrow> PingPayload" where
  "reply_payload m = get_PingPayload (take sizeof_PingPayload (drop sizeof_IcmpHdr (rx_data m)))"

definition echo_reply :: "rx_msg \<Rightarrow> bool" where
  "echo_reply m \<longleftrightarrow> 32 \<le> length (rx_data m) \<and> icmp_type (reply_header m) = ICMP_ECHOREPLY"

definition answers :: "ping_scanner \<Rightarrow> 'w ping_state \<Rightarrow> rx_msg \<Rightarrow> bool" where
  "answers s st m \<longleftrightarrow> echo_reply m \<and> ntohl (rx_addr m) = target_ip (reply_payload m) \<and>
     in_range s (target_ip (reply_payload m)) \<and>
     target_ip (reply_payload m) \<notin> set (found_ips_cache st)"

definition counted :: "rx_msg \<Rightarrow> 'w ping_state \<Rightarrow> 'w ping_state" where
  "counted m st = (if echo_reply m then st\<lparr>echo_replies := echo_replies st + 1\<rparr> else st)"

lemma process_received_packet_eq:
  assumes "scanner_ok s"
  shows "process_received_packet os s m ts t st =
    (if answers s st m then
       (case diff_ns ts (payload_time (reply_payload m)) of
          None \<Rightarrow> Inl Signed_overflow
        | Some d \<Rightarrow> Inr (record_reply os s (target_ip (reply_payload m))
            (host_no s (target_ip (reply_payload m))) d t (counted m st)))
     else if echo_reply m \<or> length (rx_data m) < 32 then Inr (unmatched (counted m st)) else Inr st)"
  using assms
  by (auto simp: process_received_packet_def answers_def echo_reply_def counted_def Let_def
      reply_header_def reply_payload_def host_index_for_ip_eq
      is_host_found_def sizeof_IcmpHdr_def sizeof_PingPayload_def cong: option.case_cong)

lemma counted_received: "ping_inv s st \<Longrightarrow> received s st (counted m st)"
  by (simp add: counted_def received_refl received_counters)

lemma process_received_packet_received:
  assumes ok: "scanner_ok s" and inv: "ping_inv s st"
    and run: "process_received_packet os s m ts t st = Inr st'"
  shows "received s st st'"
proof (cases "answers s st m")
  case False
  have "received s st (unmatched (counted m st))"
    using received_trans [OF counted_received [OF inv]] received_counters(1) counted_received [OF inv]
    by (metis received_def unmatched_def)
  with False run inv show ?thesis
    by (auto simp: process_received_packet_eq [OF ok] received_refl split: if_splits)
next
  case True
  then obtain d where st': "st' = record_reply os s (target_ip (reply_payload m))
      (host_no s (target_ip (reply_payload m))) d t (counted m st)"
    using run by (auto simp: process_received_packet_eq [OF ok] split: option.splits)
  have c: "received s st (counted m st)" using inv by (rule counted_received)
  then have "ping_inv s (counted m st)" by (simp add: received_def)
  from record_reply_received(1) [OF ok this] True
  show ?thesis unfolding st'
    by (intro received_trans [OF c]) (simp add: answers_def counted_def)
qed

lemma extract_control_data_received:
  assumes "ping_inv s st" and "extract_control_data os m st = (t, ts, st')"
  shows "received s st st'"
proof -
  obtain a b c v where f: "fold control_step (rx_cmsgs m)
      (-1, \<lparr>tv_sec = 0, tv_nsec = 0\<rparr>, False, rx_queue_overflows st) = (a, b, c, v)"
    by (metis surj_pair)
  have "received s st (st\<lparr>rx_queue_overflows := v\<rparr>)" using assms(1) by (rule received_counters)
  then have v: "received s st (st\<lparr>rx_queue_overflows := v, world := w\<rparr>)" if "led w = led (world st)" for w
    by (rule received_trans) (rule received_counters(4),
      use received_inv [OF received_counters(3) [OF assms(1)]] that in simp_all)
  obtain now w where clk: "on_env (os_clock_gettime os) (world st) = (now, w)" by (metis surj_pair)
  have st': "st' = (if \<not> c then st\<lparr>rx_queue_overflows := v, world := w\<rparr> else st\<lparr>rx_queue_overflows := v\<rparr>)"
    using assms(2) by (auto simp: extract_control_data_def Let_def f clk)
  show ?thesis
    unfolding st' using received_counters(3) [OF assms(1)] v [OF on_env_led [OF clk]] by (cases c) simp_all
qed

lemma process_messages_received:
  "scanner_ok s \<Longrightarrow> ping_inv s st \<Longrightarrow> process_messages os s ms st = Inr st' \<Longrightarrow> received s st st'"
proof (induction os s ms st rule: process_messages.induct)
  case (1 os s st)
  then show ?case by (simp add: received_refl)
next
  case (2 os s m ms st)
  show ?case
  proof (cases "length (rx_data m) < sizeof_IcmpHdr")
    case True
    with 2 show ?thesis by simp
  next
    case False
    obtain t ts st1 where e: "extract_control_data os m st = (t, ts, st1)" by (metis surj_pair)
    then obtain st2 where p: "process_received_packet os s m ts t st1 = Inr st2"
      using "2.prems" False by (auto split: sum.splits)
    then have rest: "process_messages os s ms st2 = Inr st'" using "2.prems" False e by simp
    have r1: "received s st st1" using "2.prems"(2) e by (rule extract_control_data_received)
    have r2: "received s st1 st2"
      using process_received_packet_received [OF "2.prems"(1) received_inv [OF r1] p] .
    have "received s st2 st'" using "2.IH"(2) [OF False e [symmetric] refl refl p "2.prems"(1) received_inv [OF r2] rest] .
    with r1 r2 show ?thesis by (blast intro: received_trans)
  qed
qed


lemma received_world:
  "ping_inv s st \<Longrightarrow> on_env f (world st) = (a, w) \<Longrightarrow> received s st (st\<lparr>world := w\<rparr>)"
  by (rule received_counters(4)) (simp_all add: on_env_led)

lemma receive_loop_received:
  assumes "receive_loop os s st = Some r" and "scanner_ok s" and "ping_inv s st"
  shows "on_return (received s st) r"
  using assms
proof (induction os s st r rule: receive_loop.raw_induct [rotated, consumes 1, case_names step])
  case (step f os s st r)
  obtain recvd e msgs w where
    call: "on_env (os_recvmmsg os (sock s) (recv_batch_size s)) (world st) = ((recvd, e, msgs), w)"
    by (metis surj_pair)
  define st1 where "st1 = st\<lparr>world := w\<rparr>"
  have r1: "received s st st1" unfolding st1_def by (rule received_world [OF step.prems(2) call])
  consider (stop) "recvd < 0 \<and> e = EAGAIN \<or> recvd = 0" | (err) "recvd < 0" "e \<noteq> EAGAIN" | (more) "0 < recvd"
    by fastforce
  then show ?case
  proof cases
    case stop
    then have "r = Inr st1" using step.hyps by (auto simp: call Let_def st1_def)
    with r1 show ?thesis by simp
  next
    case err
    have "received s st1 (st1\<lparr>world := snd (sys_call os (Perror ''recvmmsg'') w)\<rparr>)"
      by (rule received_counters(4) [OF received_inv [OF r1]]) (simp add: sys_call_def st1_def split: prod.splits)
    with r1 have "received s st (st1\<lparr>world := snd (sys_call os (Perror ''recvmmsg'') w)\<rparr>)"
      by (rule received_trans)
    moreover have "r = Inr (st1\<lparr>world := snd (sys_call os (Perror ''recvmmsg'') w)\<rparr>)"
      using err step.hyps by (simp add: call Let_def st1_def)
    ultimately show ?thesis by simp
  next
    case more
    then have *: "seq (Some (process_messages os s (take (nat recvd) msgs) st1)) (\<lambda>st2.
        if nat recvd < recv_batch_size s then Some (Inr st2) else f os s st2) = Some r"
      using step.hyps by (simp add: call Let_def st1_def)
    then show ?thesis
    proof (rule on_return_seq [where P = "received s st"])
      show "on_return (received s st) q" if "Some (process_messages os s (take (nat recvd) msgs) st1) = Some q" for q
        using that process_messages_received [OF step.prems(1) received_inv [OF r1]] received_trans [OF r1]
        by (cases q) auto
      fix st2 r
      assume r2: "received s st st2" and go: "(if nat recvd < recv_batch_size s then Some (Inr st2) else f os s st2) = Some r"
      show "on_return (received s st) r"
      proof (cases "nat recvd < recv_batch_size s")
        case True
        with go r2 show ?thesis by auto
      next
        case False
        with go have "f os s st2 = Some r" by simp
        from step.IH [OF this step.prems(1) received_inv [OF r2]] show ?thesis
          by (rule on_return_mono) (rule received_trans [OF r2])
      qed
    qed
  qed
qed

lemma receive_responses_received:
  assumes "scanner_ok s" and "ping_inv s st" and "receive_responses os s blocking st = Some r"
  shows "on_return (received s st) r"
proof (cases blocking)
  case False
  with assms show ?thesis by (simp add: receive_responses_def receive_loop_received)
next
  case True
  obtain sel e evs w where
    call: "on_env (os_epoll_wait os (epoll_fd s) 1 EPOLL_TIMEOUT_MS) (world st) = ((sel, e, evs), w)"
    by (metis surj_pair)
  have r1: "received s st (st\<lparr>world := w\<rparr>)" by (rule received_world [OF assms(2) call])
  then have "on_return (received s st) r" if "receive_loop os s (st\<lparr>world := w\<rparr>) = Some r"
    using receive_loop_received [OF that assms(1) received_inv [OF r1]]
    using received_trans [OF r1] on_return_mono by blast
  with True r1 assms(3) show ?thesis
    by (auto simp: receive_responses_def call [simplified] Let_def split: if_splits)
qed

section \<open>Lemmas: the sweep\<close>

text \<open>What the sweep does to slots \<open>is\<close>: it takes out the overdue ones and counts them.\<close>

definition overdue :: "ping_scanner \<Rightarrow> timespec \<Rightarrow> ping_probe \<Rightarrow> bool" where
  "overdue s now p \<longleftrightarrow> active p \<and> (\<exists>d. diff_ns now (send_time p) = Some d \<and> timeout_ns (timeout_ms s) < d)"

lemma reap_slot_eq:
  assumes ok: "scanner_ok s" and inv: "table_inv s st" and i: "i < max_probes s"
    and run: "reap_slot s now i st = Inr st'"
  shows "st' = (if overdue s now (probe_table st ! i)
    then (vacate s i st)\<lparr>probe_timeouts := probe_timeouts st + 1\<rparr> else st)"
proof (cases "overdue s now (probe_table st ! i)")
  case False
  with run show ?thesis by (auto simp: reap_slot_def overdue_def Let_def split: if_splits option.splits)
next
  case True
  then have a: "active (probe_table st ! i)" by (simp add: overdue_def)
  note sl = table_inv_slot [OF inv i a]
  have "cast_int i = int i" using i ok by (simp add: scanner_ok_def)
  with True run sl show ?thesis
    by (auto simp: reap_slot_def overdue_def vacate_def Let_def host_index_for_ip_eq [OF ok] split: if_splits)
qed

definition reaped :: "ping_scanner \<Rightarrow> timespec \<Rightarrow> nat list \<Rightarrow> 'w ping_state \<Rightarrow> 'w ping_state \<Rightarrow> bool" where
  "reaped s now is st st' \<longleftrightarrow> ping_inv s st' \<and>
     found_ips_cache st' = found_ips_cache st \<and> scan_results st' = scan_results st \<and>
     next_host_idx st' = next_host_idx st \<and> world st' = world st \<and>
     inflight st' = inflight st - {dest_ip (probe_table st ! i) |i. i \<in> set is \<and> overdue s now (probe_table st ! i)} \<and>
     probe_timeouts st' = probe_timeouts st +
       word_of_nat (length (filter (\<lambda>i. overdue s now (probe_table st ! i)) is))"

lemma reap_slots_reaped:
  assumes "scanner_ok s" and "distinct is" and "set is \<subseteq> {..<max_probes s}"
  shows "ping_inv s st \<Longrightarrow> reap_slots s now is st = Inr st' \<Longrightarrow> reaped s now is st st'"
  using assms(2,3)
proof (induction "is" arbitrary: st)
  case Nil
  then show ?case by (simp add: reaped_def)
next
  case (Cons i rest)
  obtain st1 where one: "reap_slot s now i st = Inr st1" and rest: "reap_slots s now rest st1 = Inr st'"
    using Cons.prems(2) by (auto split: sum.splits)
  note I = ping_invD [OF Cons.prems(1)]
  have i: "i < max_probes s" "i \<notin> set rest" using Cons.prems by auto
  have len: "length (probe_table st) = max_probes s" using I(1) by (rule table_invD)
  note st1 = reap_slot_eq [OF assms(1) I(1) i(1) one]
  show ?case
  proof (cases "overdue s now (probe_table st ! i)")
    case False
    with Cons st1 rest show ?thesis
      by (simp add: reaped_def) blast
  next
    case True
    then have a: "active (probe_table st ! i)" by (simp add: overdue_def)
    have s1: "st1 = (vacate s i st)\<lparr>probe_timeouts := probe_timeouts st + 1\<rparr>" using st1 True by simp
    have "table_inv s st1" "buf_inv s st1"
      using vacate_inv [OF assms(1) I(1) i(1) a] I(2) vacate_frame(6) [of s i st]
      by (simp_all add: s1 table_inv_def buf_inv_def)
    moreover have fl: "inflight st1 = inflight st - {dest_ip (probe_table st ! i)}"
      using vacate_inflight [OF I(1) i(1) a] by (simp add: s1 inflight_def)
    moreover have same: "found_ips_cache st1 = found_ips_cache st" "scan_results st1 = scan_results st"
      "next_host_idx st1 = next_host_idx st" "world st1 = world st" "hosts_found st1 = hosts_found st"
      "reported st1 = reported st" "probe_timeouts st1 = probe_timeouts st + 1"
      by (simp_all add: s1 vacate_def Let_def)
    ultimately have inv1: "ping_inv s st1"
      using I(3,4) unfolding ping_inv_def found_inv_def by (elim conjE) (simp add: disjoint_iff)
    have tbl: "probe_table st1 ! j = probe_table st ! j" if "j \<in> set rest" for j
      using that i by (cases "j = i") (simp_all add: s1)
    have IH: "reaped s now rest st1 st'" using Cons.IH [OF inv1 rest] Cons.prems by simp
    have "{dest_ip (probe_table st1 ! j) |j. j \<in> set rest \<and> overdue s now (probe_table st1 ! j)} =
      {dest_ip (probe_table st ! j) |j. j \<in> set rest \<and> overdue s now (probe_table st ! j)}"
      using tbl by force
    moreover have "filter (\<lambda>j. overdue s now (probe_table st1 ! j)) rest =
        filter (\<lambda>j. overdue s now (probe_table st ! j)) rest"
      using tbl by (intro filter_cong) auto
    ultimately show ?thesis
      using IH True by (auto simp: reaped_def same fl)
  qed
qed


lemma reap_timed_out_probes_reaped:
  assumes ok: "scanner_ok s" and inv: "ping_inv s st"
    and run: "reap_timed_out_probes os s st = Inr st'"
  obtains now w where "on_env (os_clock_gettime os) (world st) = (now, w)"
    "reaped s now [0..<max_probes s] (st\<lparr>world := w\<rparr>) st'"
proof -
  obtain now w where clk: "on_env (os_clock_gettime os) (world st) = (now, w)" by (metis surj_pair)
  have inv1: "ping_inv s (st\<lparr>world := w\<rparr>)" by (rule received_inv [OF received_world [OF inv clk]])
  have "length (probe_table st) = max_probes s" using ping_invD(1) [OF inv] by (rule table_invD)
  then have "reap_slots s now [0..<max_probes s] (st\<lparr>world := w\<rparr>) = Inr st'"
    using run by (simp add: reap_timed_out_probes_def clk)
  then have "reaped s now [0..<max_probes s] (st\<lparr>world := w\<rparr>) st'"
    by (intro reap_slots_reaped [OF ok _ _ inv1]) auto
  with clk show thesis by (rule that)
qed

text \<open>
  The sweep cannot overflow on clock readings the kernel gives.
\<close>

lemma reap_slots_total:
  assumes "clock_ok now" and "\<forall>p\<in>set (probe_table st). active p \<longrightarrow> clock_ok (send_time p)"
    and "set is \<subseteq> {..<length (probe_table st)}"
  shows "\<exists>st'. reap_slots s now is st = Inr st'"
  using assms(2,3)
proof (induction "is" arbitrary: st)
  case Nil
  then show ?case by simp
next
  case (Cons i rest)
  let ?p = "probe_table st ! i"
  have i: "i < length (probe_table st)" using Cons.prems by simp
  have "\<exists>st1. reap_slot s now i st = Inr st1 \<and> length (probe_table st1) = length (probe_table st) \<and>
      (\<forall>p\<in>set (probe_table st1). active p \<longrightarrow> clock_ok (send_time p))"
  proof (cases "active ?p")
    case True
    then have "diff_ns now (send_time ?p) = Some (ns_of now - ns_of (send_time ?p))"
      using Cons.prems(1) i by (intro diff_ns_exact [OF assms(1)]) simp
    with Cons.prems(1) i show ?thesis
      by (auto simp: reap_slot_def Let_def dest!: set_update_subset_insert [THEN subsetD])
  next
    case False
    with Cons.prems(1) show ?thesis by (simp add: reap_slot_def)
  qed
  then obtain st1 where "reap_slot s now i st = Inr st1" "length (probe_table st1) = length (probe_table st)"
    "\<forall>p\<in>set (probe_table st1). active p \<longrightarrow> clock_ok (send_time p)" by blast
  with Cons.IH [of st1] Cons.prems(2) show ?case by auto
qed

lemma echo_request_reply:
  assumes "m = \<lparr>rx_addr = htonl a, rx_data = ICMP_ECHOREPLY # tl (echo_request s pid16 pad a q ts), rx_cmsgs = cs\<rparr>"
  shows "echo_reply m" "target_ip (reply_payload m) = a"
    "fits64 (tv_sec ts) \<Longrightarrow> fits64 (tv_nsec ts) \<Longrightarrow> payload_time (reply_payload m) = ts"
proof -
  let ?h = "\<lparr>icmp_type = ICMP_ECHOREPLY, icmp_code = 0, icmp_checksum = 0, icmp_id = htons pid16,
      icmp_sequence = htons q\<rparr>"
  let ?p = "\<lparr>target_ip = a, send_sec = word_of_int (tv_sec ts), send_nsec = word_of_int (tv_nsec ts)\<rparr>"
  have d: "rx_data m = put_IcmpHdr ?h @ put_PingPayload pad ?p @ filler (payload_len s)"
    using assms by (simp add: echo_request_def put_IcmpHdr_def put_u8_def)
  have p: "reply_payload m = ?p" unfolding reply_payload_def d by (rule get_echo)
  have h: "reply_header m = ?h" unfolding reply_header_def d by (rule get_echo)
  show "echo_reply m"
    by (simp add: echo_reply_def h) (simp add: d hdr.length_enc payload.length_enc sizeof_IcmpHdr_def sizeof_PingPayload_def)
  show "target_ip (reply_payload m) = a" by (simp add: p)
  show "payload_time (reply_payload m) = ts" if "fits64 (tv_sec ts)" "fits64 (tv_nsec ts)"
    using that by (simp add: payload_time_def p fits64_def sint_sbintrunc' signed_take_bit_int_eq_self)
qed

lemma clear_reply_slot_keeps [simp]:
  "scan_results (clear_reply_slot h a st) = scan_results st"
  "echo_replies (clear_reply_slot h a st) = echo_replies st"
  "unmatched_replies (clear_reply_slot h a st) = unmatched_replies st"
  by (simp_all add: clear_reply_slot_def Let_def)

lemma record_reply_result:
  obtains r where "scan_results (record_reply os s a h d t st) = scan_results st @ [r]"
    "ip r = a" "ttl r = t" "rtt_ms r = rtt_of d"
    "echo_replies (record_reply os s a h d t st) = echo_replies st"
    "unmatched_replies (record_reply os s a h d t st) = unmatched_replies st"
proof -
  let ?st1 = "st\<lparr>found_ips_cache := found_ips_cache st @ [a], hosts_found := Suc (hosts_found st)\<rparr>"
  obtain name w where nm: "(if resolve_dns s then resolve_hostname os a (world (clear_reply_slot h a ?st1))
      else (''N/A'', world (clear_reply_slot h a ?st1))) = (name, w)" by (metis surj_pair)
  show thesis
    by (rule that [of "\<lparr>ip = a, ip_str = format_ip (os_inet_ntop os) a [] INET_ADDRSTRLEN, hostname = name,
          rtt_ms = rtt_of d, ttl = t\<rparr>"])
      (simp_all add: record_reply_def Let_def nm)
qed

text \<open>Taking the overdue slots out leaves the addresses whose probe is not overdue.\<close>

definition overdue_slots :: "ping_scanner \<Rightarrow> timespec \<Rightarrow> 'w ping_state \<Rightarrow> nat set" where
  "overdue_slots s now st = {i. i < max_probes s \<and> overdue s now (probe_table st ! i)}"

lemma overdue_slots_inflight:
  fixes s :: ping_scanner and st :: "'w ping_state" and now :: timespec
  assumes "table_inv s st"
  defines "out \<equiv> (\<lambda>i. dest_ip (probe_table st ! i)) ` overdue_slots s now st"
  shows "card (inflight st) - card (inflight st - out) = card (overdue_slots s now st)"
    and "inflight st - out = {a \<in> inflight st. \<exists>p\<in>set (probe_table st). active p \<and> dest_ip p = a \<and>
      \<not> overdue s now p}"
proof -
  let ?t = "probe_table st" and ?D = "overdue_slots s now st" and ?ip = "\<lambda>i. dest_ip (probe_table st ! i)"
  have len: "length ?t = max_probes s" by (rule table_invD [OF assms(1)])
  have inj: "i = j" if "i < max_probes s" "j < max_probes s" "active (?t ! i)" "active (?t ! j)" "?ip i = ?ip j" for i j
    by (rule table_inv_inj [OF assms(1)]) (use that in auto)
  have D: "i < max_probes s \<and> active (?t ! i) \<and> ?t ! i \<in> set ?t" if "i \<in> ?D" for i
    using that len by (simp add: overdue_slots_def overdue_def)
  have "inj_on ?ip ?D" using D by (auto intro!: inj_onI inj)
  then have "card out = card ?D" unfolding out_def by (rule card_image)
  moreover have sub: "out \<subseteq> inflight st" using D by (auto simp: inflight_def out_def)
  moreover have "card out \<le> card (inflight st)" by (rule card_mono [OF finite_inflight sub])
  ultimately show "card (inflight st) - card (inflight st - out) = card ?D"
    by (simp add: card_Diff_subset [OF finite_subset [OF sub finite_inflight] sub])
  have *: "?ip i \<in> out \<longleftrightarrow> overdue s now (?t ! i)" if "i < max_probes s" "active (?t ! i)" for i
  proof
    assume "?ip i \<in> out"
    then obtain j where "j \<in> ?D" "?ip i = ?ip j" by (auto simp: out_def)
    with that D [of j] have "i = j" by (intro inj) auto
    with \<open>j \<in> ?D\<close> show "overdue s now (?t ! i)" by (simp add: overdue_slots_def)
  qed (use that in \<open>auto simp: out_def overdue_slots_def\<close>)
  show "inflight st - out = {a \<in> inflight st. \<exists>p\<in>set ?t. active p \<and> dest_ip p = a \<and> \<not> overdue s now p}"
    (is "_ = ?K")
  proof (rule set_eqI)
    fix a
    show "a \<in> inflight st - out \<longleftrightarrow> a \<in> ?K"
      using * by (fastforce simp: inflight_nth len in_set_conv_nth)
  qed
qed

end
