(* ===== verification/Ping_Run.thy ===== *)
theory Ping_Run
  imports Ping_Recv
begin

text \<open>
  \<^verbatim>\<open>PingScanner::run\<close>. The loop may run for ever, so it is a partial function into \<open>outcome\<close>.
  \<open>scan_step\<close> is the specification: a step relation on what a scan is about, the hosts still to
  come, in flight, found and expired. Its invariant is proved by rule induction, and
  \<open>run_loop_simulates\<close> shows that every run of the code is a sequence of its steps.
\<close>

section \<open>The scan loop\<close>

definition scan_result :: "'w ping_state \<Rightarrow> PingScanResult" where
  "scan_result st =
     \<lparr>hosts = scan_results st,
      total_tx_drops = tx_drops st,
      total_rx_queue_overflows = rx_queue_overflows st,
      total_echo_replies = echo_replies st,
      total_unmatched_replies = unmatched_replies st,
      total_probe_timeouts = probe_timeouts st\<rparr>"

partial_function (option) run_loop ::
    "'w os \<Rightarrow> u32 \<Rightarrow> ping_scanner \<Rightarrow> 'w ping_state \<Rightarrow> 'w ping_state outcome" where
  "run_loop os pad s st =
     (if next_host_idx st < total_hosts s \<or> active_probes st > 0 then
        seq (send_batch os pad s st) (\<lambda>sb.
          if \<not> fst sb then Some (Inr (snd sb))
          else seq (receive_responses os s True (snd sb)) (\<lambda>st2.
                 seq (Some (reap_timed_out_probes os s st2)) (\<lambda>st3. run_loop os pad s st3)))
      else Some (Inr st))"

definition run :: "'w os \<Rightarrow> u32 \<Rightarrow> ping_scanner \<Rightarrow> 'w ping_state \<Rightarrow> (PingScanResult \<times> 'w ping_state) outcome" where
  "run os pad s st =
     seq (run_loop os pad s (run_reset s st)) (\<lambda>st1. Some (Inr (scan_result st1, st1)))"

section \<open>The abstract scan\<close>

text \<open>
  What a scan does, without tables, packets, batches or system calls: hosts are taken in order,
  left out or probed; a probe is answered or expires; answers may also come late. A run that
  cannot send takes back unsent probes and stops.
\<close>

record scan =
  a_next :: nat
  a_inflight :: "u32 set"
  a_found :: "u32 list"
  a_expired :: "u32 list"
  a_stopped :: bool

inductive scan_step :: "ping_scanner \<Rightarrow> scan \<Rightarrow> scan \<Rightarrow> bool" for s where
  Skip: "\<lbrakk>\<not> a_stopped a; a_next a < total_hosts s; h = host_ip s (a_next a);
      skipped s h \<or> h \<in> set (a_found a) \<or> h \<in> a_inflight a\<rbrakk>
    \<Longrightarrow> scan_step s a (a\<lparr>a_next := Suc (a_next a)\<rparr>)"
| Send: "\<lbrakk>\<not> a_stopped a; a_next a < total_hosts s; h = host_ip s (a_next a);
      \<not> skipped s h; h \<notin> set (a_found a); h \<notin> a_inflight a; card (a_inflight a) < max_probes s\<rbrakk>
    \<Longrightarrow> scan_step s a (a\<lparr>a_next := Suc (a_next a), a_inflight := insert h (a_inflight a)\<rparr>)"
| Reply: "\<lbrakk>\<not> a_stopped a; in_range s h; h \<notin> set (a_found a)\<rbrakk>
    \<Longrightarrow> scan_step s a (a\<lparr>a_found := a_found a @ [h], a_inflight := a_inflight a - {h}\<rparr>)"
| Expire: "\<lbrakk>\<not> a_stopped a; h \<in> a_inflight a\<rbrakk>
    \<Longrightarrow> scan_step s a (a\<lparr>a_expired := a_expired a @ [h], a_inflight := a_inflight a - {h}\<rparr>)"
| Stop: "\<lbrakk>\<not> a_stopped a; F \<subseteq> a_inflight a; n < a_next a\<rbrakk>
    \<Longrightarrow> scan_step s a (a\<lparr>a_stopped := True, a_inflight := F, a_next := n\<rparr>)"

inductive_cases scan_stepE: "scan_step s a b"

definition scan_start :: scan where
  "scan_start = \<lparr>a_next = 0, a_inflight = {}, a_found = [], a_expired = [], a_stopped = False\<rparr>"

abbreviation scan_steps :: "ping_scanner \<Rightarrow> scan \<Rightarrow> scan \<Rightarrow> bool" where
  "scan_steps s \<equiv> (scan_step s)\<^sup>*\<^sup>*"

text \<open>
  The invariant of the abstract scan: the accounting of the hosts passed by. As long as the scan
  has not stopped, each of them was left out, found, has a probe in flight, or had a probe that
  expired.
\<close>

definition scan_inv :: "ping_scanner \<Rightarrow> scan \<Rightarrow> bool" where
  "scan_inv s a \<longleftrightarrow>
     a_next a \<le> total_hosts s \<and> distinct (a_found a) \<and> set (a_found a) \<inter> a_inflight a = {} \<and>
     finite (a_inflight a) \<and> card (a_inflight a) \<le> max_probes s \<and>
     (\<forall>h\<in>set (a_found a) \<union> a_inflight a \<union> set (a_expired a). in_range s h) \<and>
     (\<forall>h\<in>a_inflight a \<union> set (a_expired a). \<not> skipped s h) \<and>
     (\<not> a_stopped a \<longrightarrow> (\<forall>i<a_next a. skipped s (host_ip s i) \<or>
        host_ip s i \<in> set (a_found a) \<union> a_inflight a \<union> set (a_expired a)))"

lemma scan_inv_start: "scan_inv s scan_start"
  by (simp add: scan_inv_def scan_start_def)

lemma scan_inv_step:
  assumes ok: "scanner_ok s" and "scan_step s a b" and inv: "scan_inv s a"
  shows "scan_inv s b"
  using assms(2)
proof cases
  case (Skip h)
  with inv show ?thesis by (auto simp: scan_inv_def less_Suc_eq)
next
  case (Send h)
  with inv host_ip_in_range [OF ok] show ?thesis by (auto simp: scan_inv_def less_Suc_eq)
next
  case (Reply h)
  with inv have "card (a_inflight a - {h}) \<le> max_probes s"
    by (meson card_Diff1_le order_trans scan_inv_def)
  with Reply inv show ?thesis by (auto simp: scan_inv_def)
next
  case (Expire h)
  with inv have "card (a_inflight a - {h}) \<le> max_probes s"
    by (meson card_Diff1_le order_trans scan_inv_def)
  with Expire inv show ?thesis by (auto simp: scan_inv_def)
next
  case (Stop F n)
  with inv have "card F \<le> max_probes s" "finite F"
    by (auto simp: scan_inv_def intro: order_trans [OF card_mono] finite_subset)
  with Stop inv show ?thesis by (auto simp: scan_inv_def)
qed

lemma scan_inv_steps:
  "scan_steps s a b \<Longrightarrow> scanner_ok s \<Longrightarrow> scan_inv s a \<Longrightarrow> scan_inv s b"
  by (induction rule: rtranclp_induct) (auto intro: scan_inv_step)

section \<open>The scan loop implements the abstract scan\<close>

definition abs_rel :: "'w ping_state \<Rightarrow> scan \<Rightarrow> bool" where
  "abs_rel st a \<longleftrightarrow> a_next a = next_host_idx st \<and> a_inflight a = inflight st \<and>
     a_found a = map ip (scan_results st) \<and>
     probe_timeouts st = word_of_nat (length (a_expired a))"

lemma scan_steps_send:
  assumes ok: "scanner_ok s" and "a_next a \<le> m" and "m \<le> total_hosts s" and "\<not> a_stopped a"
    and "finite (a_inflight a)"
    and "new = filter (\<lambda>h. \<not> skipped s h \<and> h \<notin> set (a_found a) \<and> h \<notin> a_inflight a)
      (map (host_ip s) [a_next a..<m])"
    and "card (a_inflight a \<union> set new) \<le> max_probes s"
  shows "scan_steps s a (a\<lparr>a_next := m, a_inflight := a_inflight a \<union> set new\<rparr>)"
  using assms(2-)
proof (induction "m - a_next a" arbitrary: a new)
  case 0
  then show ?case by simp
next
  case (Suc d)
  let ?h = "host_ip s (a_next a)"
  let ?want = "\<lambda>h. \<not> skipped s h \<and> h \<notin> set (a_found a) \<and> h \<notin> a_inflight a"
  have lt: "a_next a < m" and tot: "a_next a < total_hosts s" using Suc by auto
  show ?case
  proof (cases "?want ?h")
    case False
    let ?b = "a\<lparr>a_next := Suc (a_next a)\<rparr>"
    have "scan_step s a ?b" using False Suc.prems(3) tot by (auto intro: scan_step.Skip)
    moreover have "scan_steps s ?b (?b\<lparr>a_next := m, a_inflight := a_inflight ?b \<union> set new\<rparr>)"
      using Suc False lt by (intro Suc.hyps(1)) (auto simp: upt_map_split)
    ultimately show ?thesis by (simp add: converse_rtranclp_into_rtranclp)
  next
    case True
    let ?b = "a\<lparr>a_next := Suc (a_next a), a_inflight := insert ?h (a_inflight a)\<rparr>"
    define new' where "new' = filter ?want (map (host_ip s) [Suc (a_next a)..<m])"
    have new: "new = ?h # new'" using Suc.prems(5) True lt by (simp add: upt_map_split new'_def)
    have "card (insert ?h (a_inflight a)) \<le> card (a_inflight a \<union> set new)"
      using Suc.prems(4) new by (intro card_mono) auto
    then have "card (a_inflight a) < max_probes s"
      using Suc.prems(4,6) True by simp
    then have "scan_step s a ?b" using True Suc.prems(3) tot by (auto intro: scan_step.Send)
    moreover have "scan_steps s ?b (?b\<lparr>a_next := m, a_inflight := a_inflight ?b \<union> set new'\<rparr>)"
    proof (rule Suc.hyps(1))
      show "new' = filter (\<lambda>h. \<not> skipped s h \<and> h \<notin> set (a_found ?b) \<and> h \<notin> a_inflight ?b)
          (map (host_ip s) [a_next ?b..<m])"
        unfolding new'_def using host_ip_inj [OF ok _ tot] Suc.prems(2)
        by (intro filter_cong) auto
      show "card (a_inflight ?b \<union> set new') \<le> max_probes s" using Suc.prems(6) by (simp add: new)
    qed (use Suc.hyps(2) Suc.prems(2-4) lt in auto)
    ultimately show ?thesis by (simp add: new converse_rtranclp_into_rtranclp)
  qed
qed


lemma send_simulates:
  assumes ok: "scanner_ok s" and inv: "ping_inv s st" and rel: "abs_rel st a" and run: "\<not> a_stopped a"
    and sent: "batch_sent s st (b, st')"
  shows "ping_inv s st' \<and> (\<exists>a'. scan_steps s a a' \<and> abs_rel st' a' \<and> (a_stopped a' \<longleftrightarrow> \<not> b)) \<and>
    (b \<or> next_host_idx st' < total_hosts s)"
proof -
  note I = ping_invD [OF inv]
  have S: "table_inv s st'" "buf_inv s st'" "results_of st' = results_of st"
    using sent by (auto simp: batch_sent_def)
  obtain m new where m: "next_host_idx st \<le> m" "m \<le> total_hosts s"
    and new: "new = filter (wanted s st) (map (host_ip s) [next_host_idx st..<m])"
    and card: "card (inflight st \<union> set new) \<le> max_probes s"
    and ends: "if b then next_host_idx st' = m \<and> inflight st' = inflight st \<union> set new
      else \<exists>k<length new. next_host_idx st' = size_sub m (length new - k) \<and>
        inflight st' = inflight st \<union> set (take k new)"
    using sent unfolding batch_sent_def prod.case by blast
  have same: "scan_results st' = scan_results st" "found_ips_cache st' = found_ips_cache st"
    "hosts_found st' = hosts_found st" "reported st' = reported st" "probe_timeouts st' = probe_timeouts st"
    using S(3) by (auto simp: results_of_def)
  have found: "set (a_found a) = set (found_ips_cache st)" using rel I(3) by (simp add: abs_rel_def found_inv_def)
  have w: "wanted s st = (\<lambda>h. \<not> skipped s h \<and> h \<notin> set (a_found a) \<and> h \<notin> a_inflight a)"
    using rel found by (auto simp: wanted_def abs_rel_def fun_eq_iff)
  let ?a = "a\<lparr>a_next := m, a_inflight := a_inflight a \<union> set new\<rparr>"
  have steps: "scan_steps s a ?a"
    by (rule scan_steps_send [OF ok _ m(2) run]) (use rel m new w card in \<open>auto simp: abs_rel_def\<close>)
  have fresh: "set new \<inter> set (found_ips_cache st) = {}" unfolding new by (auto simp: wanted_def)
  have fnd: "found_inv s st'" if "inflight st' \<subseteq> inflight st \<union> set new"
    using I(3) fresh that unfolding found_inv_def same by blast
  show ?thesis
  proof (cases b)
    case True
    then have "abs_rel st' ?a" "ping_inv s st'"
      using ends rel S m fnd by (auto simp: abs_rel_def same ping_inv_def)
    with True run steps show ?thesis by (intro conjI exI [of _ ?a]) auto
  next
    case False
    then obtain k where k: "k < length new" "next_host_idx st' = size_sub m (length new - k)"
        "inflight st' = inflight st \<union> set (take k new)" using ends by auto
    have "length new \<le> m - next_host_idx st" unfolding new by (rule order_trans [OF length_filter_le]) simp
    with k(1) m have less: "next_host_idx st' < m" unfolding k(2) size_sub_def by auto
    let ?b = "?a\<lparr>a_stopped := True, a_inflight := inflight st', a_next := next_host_idx st'\<rparr>"
    have "inflight st' \<subseteq> a_inflight ?a" using k(3) rel set_take_subset [of k new] by (auto simp: abs_rel_def)
    then have "scan_step s ?a ?b" using run less by (intro scan_step.Stop) auto
    with steps have "scan_steps s a ?b" by (rule rtranclp.rtrancl_into_rtrancl)
    moreover have "abs_rel st' ?b" using rel by (simp add: abs_rel_def same)
    moreover have "ping_inv s st'"
      using S less m fnd k(3) set_take_subset [of k new] by (auto simp: ping_inv_def)
    ultimately show ?thesis using False less m by (intro conjI exI [of _ ?b]) auto
  qed
qed

lemma scan_steps_replies:
  assumes "\<not> a_stopped a" and "distinct (a_found a @ rs)" and "\<forall>h\<in>set rs. in_range s h"
  shows "scan_steps s a (a\<lparr>a_found := a_found a @ rs, a_inflight := a_inflight a - set rs\<rparr>)"
  using assms
proof (induction rs arbitrary: a)
  case Nil
  then show ?case by simp
next
  case (Cons h rs)
  let ?b = "a\<lparr>a_found := a_found a @ [h], a_inflight := a_inflight a - {h}\<rparr>"
  have "scan_step s a ?b" using Cons.prems by (intro scan_step.Reply) auto
  moreover have "scan_steps s ?b (?b\<lparr>a_found := a_found ?b @ rs, a_inflight := a_inflight ?b - set rs\<rparr>)"
    using Cons.prems by (intro Cons.IH) auto
  moreover have "a_inflight a - {h} - set rs = a_inflight a - set (h # rs)" by auto
  ultimately show ?case by (simp add: converse_rtranclp_into_rtranclp)
qed

lemma receive_simulates:
  assumes rec: "received s st st'" and rel: "abs_rel st a" and run: "\<not> a_stopped a"
  shows "\<exists>a'. scan_steps s a a' \<and> abs_rel st' a' \<and> \<not> a_stopped a'"
proof -
  obtain rs where rs: "scan_results st' = scan_results st @ rs" "inflight st' = inflight st - ip ` set rs"
    using rec unfolding received_def by blast
  have "found_inv s st'" using rec by (simp add: received_def ping_inv_def)
  then have "distinct (map ip (scan_results st'))" "\<forall>r\<in>set (scan_results st'). in_range s (ip r)"
    by (metis found_inv_def)+
  then have "distinct (map ip (scan_results st @ rs))" "\<forall>r\<in>set rs. in_range s (ip r)"
    by (simp_all add: rs)
  then have "scan_steps s a (a\<lparr>a_found := a_found a @ map ip rs, a_inflight := a_inflight a - set (map ip rs)\<rparr>)"
    using rel run by (intro scan_steps_replies) (auto simp: abs_rel_def)
  moreover have "abs_rel st' (a\<lparr>a_found := a_found a @ map ip rs, a_inflight := a_inflight a - set (map ip rs)\<rparr>)"
    using rel rec by (simp add: abs_rel_def rs received_def)
  ultimately show ?thesis using run
    by (intro exI [of _ "a\<lparr>a_found := a_found a @ map ip rs, a_inflight := a_inflight a - set (map ip rs)\<rparr>"] conjI) auto
qed

lemma scan_steps_expire:
  assumes "\<not> a_stopped a" and "distinct hs" and "set hs \<subseteq> a_inflight a"
  shows "scan_steps s a (a\<lparr>a_expired := a_expired a @ hs, a_inflight := a_inflight a - set hs\<rparr>)"
  using assms
proof (induction hs arbitrary: a)
  case Nil
  then show ?case by simp
next
  case (Cons h hs)
  let ?b = "a\<lparr>a_expired := a_expired a @ [h], a_inflight := a_inflight a - {h}\<rparr>"
  have "scan_step s a ?b" using Cons.prems by (intro scan_step.Expire) auto
  moreover have "scan_steps s ?b (?b\<lparr>a_expired := a_expired ?b @ hs, a_inflight := a_inflight ?b - set hs\<rparr>)"
    using Cons.prems by (intro Cons.IH) auto
  moreover have "a_inflight a - {h} - set hs = a_inflight a - set (h # hs)" by auto
  ultimately show ?case by (simp add: converse_rtranclp_into_rtranclp)
qed

lemma reap_simulates:
  assumes inv: "ping_inv s st" and reap: "reaped s now [0..<max_probes s] st st'"
    and rel: "abs_rel st a" and run: "\<not> a_stopped a"
  shows "\<exists>a'. scan_steps s a a' \<and> abs_rel st' a' \<and> \<not> a_stopped a'"
proof -
  let ?t = "probe_table st"
  define late where "late = filter (\<lambda>i. overdue s now (?t ! i)) [0..<max_probes s]"
  define hs where "hs = map (\<lambda>i. dest_ip (?t ! i)) late"
  let ?a = "a\<lparr>a_expired := a_expired a @ hs, a_inflight := a_inflight a - set hs\<rparr>"
  have t: "table_inv s st" using inv by (rule ping_invD)
  have act: "active (?t ! i)" "i < max_probes s" if "i \<in> set late" for i
    using that by (auto simp: late_def overdue_def)
  have "distinct late" by (simp add: late_def)
  then have "distinct hs"
    unfolding hs_def distinct_map inj_on_def using table_inv_inj [OF t] act by blast
  moreover have "set hs \<subseteq> a_inflight a"
  proof
    fix h assume "h \<in> set hs"
    then obtain i where "i \<in> set late" "h = dest_ip (?t ! i)" by (auto simp: hs_def)
    with act [of i] show "h \<in> a_inflight a"
      using rel table_invD(1) [OF t] by (auto simp: abs_rel_def inflight_nth)
  qed
  ultimately have steps: "scan_steps s a ?a" using run by (intro scan_steps_expire)
  have "set hs = {dest_ip (?t ! i) |i. i \<in> set [0..<max_probes s] \<and> overdue s now (?t ! i)}"
    by (auto simp: hs_def late_def)
  then have "inflight st' = inflight st - set hs" "scan_results st' = scan_results st"
    "next_host_idx st' = next_host_idx st" "probe_timeouts st' = probe_timeouts st + word_of_nat (length hs)"
    using reap unfolding reaped_def hs_def late_def length_map by metis+
  then have "abs_rel st' ?a" using rel by (simp add: abs_rel_def)
  with steps run show ?thesis by (intro exI [of _ ?a] conjI) auto
qed

section \<open>The whole run\<close>

lemma round_simulates:
  assumes ok: "scanner_ok s" "packet_ok s" and inv: "ping_inv s st" and rel: "abs_rel st a"
    and run: "\<not> a_stopped a" and sb: "send_batch os pad s st = Some (Inr (b, st1))"
  shows "ping_inv s st1 \<and> (\<exists>a'. scan_steps s a a' \<and> abs_rel st1 a' \<and> (a_stopped a' \<longleftrightarrow> \<not> b)) \<and>
    (b \<or> next_host_idx st1 < total_hosts s) \<and> led (world st1) = led (world st)"
proof -
  note I = ping_invD [OF inv]
  have sent: "batch_sent s st (b, st1)" using send_batch_spec [OF ok I(1,2,4) sb] by simp
  from send_simulates [OF ok(1) inv rel run this] sent show ?thesis by (simp add: batch_sent_def)
qed

definition scan_done :: "ping_scanner \<Rightarrow> descriptors \<Rightarrow> scan \<Rightarrow> 'w ping_state \<Rightarrow> bool" where
  "scan_done s d a st' \<longleftrightarrow> ping_inv s st' \<and> led (world st') = d \<and> (\<exists>a'. scan_steps s a a' \<and> abs_rel st' a' \<and>
     (a_stopped a' \<longleftrightarrow> \<not> (next_host_idx st' = total_hosts s \<and> active_probes st' = 0)))"

lemma scan_done_after:
  "scan_steps s a b \<Longrightarrow> scan_done s d b st' \<Longrightarrow> scan_done s d a st'"
  unfolding scan_done_def by (blast intro: rtranclp_trans)

lemma run_loop_simulates:
  assumes "run_loop os pad s st = Some r" and "scanner_ok s" and "packet_ok s" and "ping_inv s st"
    and "abs_rel st a" and "\<not> a_stopped a" and "led (world st) = d"
  shows "on_return (scan_done s d a) r"
  using assms
proof (induction os pad s st r arbitrary: a
    rule: run_loop.raw_induct [rotated, consumes 1, case_names step])
  case (step f os pad s st r)
  note ok = step.prems(1,2) and inv = step.prems(3) and rel = step.prems(4) and run = step.prems(5)
    and led = step.prems(6)
  show ?case
  proof (cases "next_host_idx st < total_hosts s \<or> active_probes st > 0")
    case False
    then have "r = Inr st" using step.hyps by auto
    moreover have "scan_done s d a st"
      unfolding scan_done_def using False ping_invD(4) [OF inv] inv rel run led by fastforce
    ultimately show ?thesis by simp
  next
    case True
    then have "seq (send_batch os pad s st) (\<lambda>sb. if \<not> fst sb then Some (Inr (snd sb))
        else seq (receive_responses os s True (snd sb)) (\<lambda>st2.
          seq (Some (reap_timed_out_probes os s st2)) (\<lambda>st3. f os pad s st3))) = Some r"
      using step.hyps by simp
    then show ?thesis
    proof (rule on_return_seq [where P = "\<lambda>sb. send_batch os pad s st = Some (Inr sb)"])
      show "on_return (\<lambda>sb. send_batch os pad s st = Some (Inr sb)) q" if "send_batch os pad s st = Some q" for q
        using that by (cases q) auto
      fix sb r
      assume sb: "send_batch os pad s st = Some (Inr sb)"
        and go: "(if \<not> fst sb then Some (Inr (snd sb))
          else seq (receive_responses os s True (snd sb)) (\<lambda>st2.
            seq (Some (reap_timed_out_probes os s st2)) (\<lambda>st3. f os pad s st3))) = Some r"
      obtain b st1 where bs: "sb = (b, st1)" by (cases sb)
      obtain a1 where a1: "ping_inv s st1" "scan_steps s a a1" "abs_rel st1 a1" "a_stopped a1 \<longleftrightarrow> \<not> b"
          "b \<or> next_host_idx st1 < total_hosts s" "led (world st1) = d"
        using round_simulates [OF ok inv rel run] sb bs led by blast
      show "on_return (scan_done s d a) r"
      proof (cases b)
        case False
        then have "r = Inr st1" using go bs by simp
        moreover have "scan_done s d a st1" unfolding scan_done_def using a1 False by auto
        ultimately show ?thesis by simp
      next
        case True
        then have "seq (receive_responses os s True st1) (\<lambda>st2.
            seq (Some (reap_timed_out_probes os s st2)) (\<lambda>st3. f os pad s st3)) = Some r" using go bs by simp
        then show ?thesis
        proof (rule on_return_seq [where P = "received s st1"])
          show "on_return (received s st1) q" if "receive_responses os s True st1 = Some q" for q
            using that by (rule receive_responses_received [OF ok(1) a1(1)])
          fix st2 r
          assume r2: "received s st1 st2"
            and go2: "seq (Some (reap_timed_out_probes os s st2)) (\<lambda>st3. f os pad s st3) = Some r"
          note inv2 = received_inv [OF r2]
          obtain a2 where a2: "scan_steps s a1 a2" "abs_rel st2 a2" "\<not> a_stopped a2"
            using receive_simulates [OF r2 a1(3)] a1(4) True by blast
          show "on_return (scan_done s d a) r"
          proof (cases "reap_timed_out_probes os s st2")
            case (Inl e)
            with go2 show ?thesis by auto
          next
            case (Inr st3)
            obtain now w where clk: "on_env (os_clock_gettime os) (world st2) = (now, w)"
              and reap: "reaped s now [0..<max_probes s] (st2\<lparr>world := w\<rparr>) st3"
              by (rule reap_timed_out_probes_reaped [OF ok(1) inv2 Inr])
            have inv2': "ping_inv s (st2\<lparr>world := w\<rparr>)" by (rule received_inv [OF received_world [OF inv2 clk]])
            have "abs_rel (st2\<lparr>world := w\<rparr>) a2" using a2(2) by (simp add: abs_rel_def inflight_def)
            from reap_simulates [OF inv2' reap this a2(3)] obtain a3 where
              a3: "scan_steps s a2 a3" "abs_rel st3 a3" "\<not> a_stopped a3" by blast
            have "ping_inv s st3" "led (world st3) = d"
              using reap r2 on_env_led [OF clk] a1(6) by (simp_all add: reaped_def received_def)
            then have "on_return (scan_done s d a3) r"
              using go2 Inr a3 by (intro step.IH [OF _ ok]) auto
            then show ?thesis
              using a1(2) a2(1) a3(1) by (auto intro: on_return_mono scan_done_after rtranclp_trans)
          qed
        qed
      qed
    qed
  qed
qed

section \<open>From the reset state\<close>

text \<open>What \<^verbatim>\<open>run()\<close> needs of the object: tables and buffers of the sizes the constructor gave them.\<close>

definition sized :: "ping_scanner \<Rightarrow> 'w ping_state \<Rightarrow> bool" where
  "sized s st \<longleftrightarrow> length (probe_table st) = max_probes s \<and> length (host_to_probe st) = total_hosts s \<and> buf_inv s st"

lemma run_reset_inv:
  assumes "sized s st"
  shows "ping_inv s (run_reset s st)" "abs_rel (run_reset s st) scan_start"
proof -
  have "map (\<lambda>_. ProbeInfo_init) (probe_table st) = replicate (max_probes s) ProbeInfo_init"
    "map (\<lambda>_. - 1) (host_to_probe st) = replicate (total_hosts s) (- 1 :: int)"
    using assms by (simp_all add: sized_def map_replicate_const)
  moreover have "\<not> active ProbeInfo_init" by (simp add: ProbeInfo_init_def)
  ultimately show "ping_inv s (run_reset s st)" "abs_rel (run_reset s st) scan_start"
    using assms
    by (auto simp: ping_inv_def table_inv_def found_inv_def buf_inv_def sized_def run_reset_def
        inflight_def count_active_def abs_rel_def scan_start_def)
qed

lemma initialize_buffers_sized: "packet_ok s \<Longrightarrow> sized s (initialize_buffers s w)"
proof -
  assume "packet_ok s"
  then have "size_mul (packet_buffer_size s) (send_count s) = send_count s * packet_buffer_size s"
    by (metis mod_less mult.commute packet_ok_def size_mul_def)
  then show ?thesis by (simp add: sized_def buf_inv_def initialize_buffers_def)
qed

lemma run_spec:
  assumes "scanner_ok s" "packet_ok s" "sized s st" and "run os pad s st = Some r"
  shows "on_return (\<lambda>(res, st'). res = scan_result st' \<and> scan_done s (led (world st)) scan_start st') r"
proof -
  have "seq (run_loop os pad s (run_reset s st)) (\<lambda>st1. Some (Inr (scan_result st1, st1))) = Some r"
    using assms(4) by (simp add: run_def)
  then show ?thesis
  proof (rule on_return_seq)
    show "on_return (scan_done s (led (world st)) scan_start) q" if "run_loop os pad s (run_reset s st) = Some q" for q
      using run_loop_simulates [OF that assms(1,2) run_reset_inv [OF assms(3)]]
      by (simp add: scan_start_def run_reset_def)
  qed auto
qed

section \<open>Faults, and runs that never end\<close>

lemma send_batch_fault:
  assumes ok: "scanner_ok s" "packet_ok s" and inv: "ping_inv s st"
    and run: "send_batch os pad s st = Some (Inl f)"
  shows "\<exists>e what. f = System_error e what"
proof -
  obtain ts w where clk: "on_env (os_clock_gettime os) (world st) = (ts, w)" by (metis surj_pair)
  have inv1: "ping_inv s (st\<lparr>world := w\<rparr>)" by (rule received_inv [OF received_world [OF inv clk]])
  note I = ping_invD [OF inv1]
  obtain st1 and new :: "u32 list" where "populate_batch_entries os pad s ts (st\<lparr>world := w\<rparr>, 0) = Inr (st1, length new)"
    using populate_spec [OF ok I(1,2) _ I(4), of pad ts "[]" os] by (auto simp: batch_inv_def)
  then show ?thesis
    using run flush_loop_fault [of os s "length new" 0 st1]
    by (auto simp: send_batch_def clk flush_send_queue_def split: if_splits)
qed

lemma process_messages_fault:
  "process_messages os s ms st = Inl f \<Longrightarrow> f = Signed_overflow"
proof (induction os s ms st rule: process_messages.induct)
  case (2 os s m ms st)
  have one: "process_received_packet os s m ts t st1 = Inl f \<Longrightarrow> f = Signed_overflow" for ts t st1
    by (auto simp: process_received_packet_def Let_def split: if_splits option.splits)
  from 2 show ?case
    by (auto simp: Let_def split: if_splits prod.splits sum.splits dest: one)
qed simp

lemma receive_responses_fault:
  "receive_responses os s b st = Some (Inl f) \<Longrightarrow> f = Signed_overflow"
proof -
  have loop: "receive_loop os s st = Some r \<Longrightarrow> r = Inl f \<Longrightarrow> f = Signed_overflow" for st r
  proof (induction os s st r rule: receive_loop.raw_induct [rotated, consumes 1, case_names step])
    case (step g os s st r)
    then show ?case
      by (auto simp: Let_def seq_def dest: process_messages_fault
          split: if_splits prod.splits sum.splits)
  qed
  show "receive_responses os s b st = Some (Inl f) \<Longrightarrow> f = Signed_overflow"
    by (auto simp: receive_responses_def Let_def dest: loop split: if_splits prod.splits)
qed

lemma reap_slots_fault: "reap_slots s now is st = Inl f \<Longrightarrow> f = Signed_overflow"
  by (induction "is" arbitrary: st)
    (auto simp: reap_slot_def Let_def split: if_splits option.splits sum.splits)

lemma run_loop_fault:
  assumes "run_loop os pad s st = Some r" and "scanner_ok s" and "packet_ok s" and "ping_inv s st"
    and "r = Inl f"
  shows "f = Signed_overflow \<or> (\<exists>e what. f = System_error e what)"
  using assms
proof (induction os pad s st r rule: run_loop.raw_induct [rotated, consumes 1, case_names step])
  case (step g os pad s st r)
  note ok = step.prems(1,2) and inv = step.prems(3)
  note I = ping_invD [OF inv]
  consider (sb) "send_batch os pad s st = Some (Inl f)"
    | (rr) st1 where "send_batch os pad s st = Some (Inr (True, st1))" "receive_responses os s True st1 = Some (Inl f)"
    | (rp) st1 st2 where "send_batch os pad s st = Some (Inr (True, st1))"
        "receive_responses os s True st1 = Some (Inr st2)" "reap_timed_out_probes os s st2 = Inl f"
    | (rec) st1 st2 st3 where "send_batch os pad s st = Some (Inr (True, st1))"
        "receive_responses os s True st1 = Some (Inr st2)" "reap_timed_out_probes os s st2 = Inr st3"
        "g os pad s st3 = Some (Inl f)"
    using step.hyps step.prems(4) by (auto simp: seq_def split: if_splits option.splits sum.splits)
  then show ?case
  proof cases
    case sb
    from send_batch_fault [OF ok inv this] show ?thesis ..
  next
    case rr
    from receive_responses_fault [OF rr(2)] show ?thesis ..
  next
    case rp
    then show ?thesis by (auto simp: reap_timed_out_probes_def split: prod.splits dest: reap_slots_fault)
  next
    case rec
    obtain a where "abs_rel st a" "\<not> a_stopped a"
    proof -
      have "abs_rel st \<lparr>a_next = next_host_idx st, a_inflight = inflight st, a_found = map ip (scan_results st),
          a_expired = replicate (unat (probe_timeouts st)) 0, a_stopped = False\<rparr>" by (simp add: abs_rel_def)
      then show thesis by (rule that) simp
    qed
    then have "ping_inv s st1" using round_simulates [OF ok inv _ _ rec(1)] by blast
    from receive_responses_received [OF ok(1) this rec(2)] have inv2: "ping_inv s st2" by (simp add: received_def)
    obtain now w where "reaped s now [0..<max_probes s] (st2\<lparr>world := w\<rparr>) st3"
      using reap_timed_out_probes_reaped [OF ok(1) inv2 rec(3)] by blast
    then have "ping_inv s st3" by (simp add: reaped_def)
    from step.IH [OF rec(4) ok this refl] show ?thesis .
  qed
qed


text \<open>
  With no probe slots, or batches of no packets, nothing is ever sent; as long as there are hosts,
  the loop does not come to its end.
\<close>

lemma send_batch_none:
  assumes "max_probes s = 0 \<or> send_batch_size s = 0"
  obtains w where "send_batch os pad s st = Some (Inr (True, st\<lparr>world := w\<rparr>))" "led w = led (world st)"
proof -
  obtain ts w where clk: "on_env (os_clock_gettime os) (world st) = (ts, w)" by (metis surj_pair)
  have "populate_batch_entries os pad s ts (st\<lparr>world := w\<rparr>, 0) = Inr (st\<lparr>world := w\<rparr>, 0)"
    by (subst populate_batch_entries.simps) (use assms in auto)
  then show thesis using that clk by (simp add: send_batch_def on_env_led)
qed

lemma run_loop_stuck:
  assumes "run_loop os pad s st = Some r" and "scanner_ok s" and "ping_inv s st"
    and "max_probes s = 0 \<or> send_batch_size s = 0" and "next_host_idx st < total_hosts s"
  shows "\<exists>f. r = Inl f"
  using assms
proof (induction os pad s st r rule: run_loop.raw_induct [rotated, consumes 1, case_names step])
  case (step g os pad s st r)
  note ok = step.prems(1) and inv = step.prems(2) and none = step.prems(3) and idx = step.prems(4)
  obtain w where sb: "send_batch os pad s st = Some (Inr (True, st\<lparr>world := w\<rparr>))" "led w = led (world st)"
    by (rule send_batch_none [OF none])
  define st1 where "st1 = st\<lparr>world := w\<rparr>"
  have r1: "received s st st1" unfolding st1_def by (rule received_counters(4) [OF inv sb(2)])
  have go: "seq (receive_responses os s True st1) (\<lambda>st2.
      seq (Some (reap_timed_out_probes os s st2)) (\<lambda>st3. g os pad s st3)) = Some r"
    using step.hyps idx sb(1) by (simp add: st1_def)
  then show ?case
  proof (cases "receive_responses os s True st1")
    case None
    with go show ?thesis by simp
  next
    case (Some q)
    show ?thesis
    proof (cases q)
      case (Inl f)
      with go Some show ?thesis by auto
    next
      case (Inr st2)
      with Some receive_responses_received [OF ok received_inv [OF r1]] have r2: "received s st1 st2"
        by fastforce
      show ?thesis
      proof (cases "reap_timed_out_probes os s st2")
        case (Inl f)
        with go Some Inr show ?thesis by auto
      next
        case reap: (Inr st3)
        obtain now w' where "reaped s now [0..<max_probes s] (st2\<lparr>world := w'\<rparr>) st3"
          using reap_timed_out_probes_reaped [OF ok received_inv [OF r2] reap] by blast
        then have "ping_inv s st3" "next_host_idx st3 < total_hosts s"
          using r1 r2 idx by (auto simp: reaped_def received_def)
        moreover have "g os pad s st3 = Some r" using go Some Inr reap by simp
        ultimately show ?thesis using step.IH ok none by blast
      qed
    qed
  qed
qed

end
