(* ===== verification/Ping_Socket.thy ===== *)
theory Ping_Socket
  imports Ping_Run
begin

text \<open>
  The life of a \<^verbatim>\<open>PingScanner\<close>: \<^verbatim>\<open>initialize_socket\<close>, the constructor and the destructor. A
  constructor that throws leaves no object whose destructor could clean up, so every error path
  has to close what was opened so far; the lemmas read that off the ledger of descriptors. The
  world comes back in both cases.
\<close>

section \<open>The socket and its options\<close>

text \<open>An error path: the socket is closed, then \<^verbatim>\<open>std::system_error\<close> is thrown.\<close>

definition close_and_throw ::
    "'w os \<Rightarrow> int \<Rightarrow> int \<Rightarrow> string \<Rightarrow> 'w world \<Rightarrow> (fault + 'a) \<times> 'w world" where
  "close_and_throw os fd e what w = (Inl (System_error e what), sys_close os fd w)"

definition initialize_socket ::
    "'w os \<Rightarrow> ping_scanner \<Rightarrow> 'w world \<Rightarrow> (fault + ping_scanner) \<times> 'w world" where
  "initialize_socket os s w0 =
     (let ((sk, e0), w1) = sys_call os (Socket Icmp_socket) w0 in
      if sk < 0 then (Inl (System_error e0 ''socket(SOCK_DGRAM, IPPROTO_ICMP)''), w1) else
      let ((flags, e1), w2) = sys_call os (Fcntl_getfl sk) w1 in
      if flags < 0 then close_and_throw os sk e1 ''fcntl(F_GETFL)'' w2 else
      let new_flags = word_of_int flags OR O_NONBLOCK;
          ((r2, e2), w3) = sys_call os (Fcntl_setfl sk new_flags) w2 in
      if r2 < 0 then close_and_throw os sk e2 ''fcntl(F_SETFL)'' w3 else
      let buffer_probe_count = max 1 (max_probes s);
          buf_size = cast_int (size_mul MAX_RX_PACKET_SIZE buffer_probe_count);
          ((r3, e3), w4) = sys_call os (Setsockopt sk SO_SNDBUF buf_size) w3 in
      if r3 < 0 then close_and_throw os sk e3 ''setsockopt(SO_SNDBUF)'' w4 else
      let ((r4, e4), w5) = sys_call os (Setsockopt sk SO_RCVBUF buf_size) w4 in
      if r4 < 0 then close_and_throw os sk e4 ''setsockopt(SO_RCVBUF)'' w5 else
      let ((r5, e5), w6) = sys_call os (Setsockopt sk SO_TIMESTAMPNS 1) w5 in
      if r5 < 0 \<and> e5 \<noteq> ENOPROTOOPT \<and> e5 \<noteq> EINVAL
      then close_and_throw os sk e5 ''setsockopt(SO_TIMESTAMPNS)'' w6 else
      let ((r6, e6), w7) = sys_call os (Setsockopt sk SO_RXQ_OVFL 1) w6 in
      if r6 < 0 \<and> e6 \<noteq> ENOPROTOOPT \<and> e6 \<noteq> EINVAL
      then close_and_throw os sk e6 ''setsockopt(SO_RXQ_OVFL)'' w7 else
      let ((r7, e7), w8) = sys_call os (Setsockopt sk IP_RECVTTL 1) w7 in
      if r7 < 0 then close_and_throw os sk e7 ''setsockopt(IP_RECVTTL)'' w8 else
      let ((ep, e8), w9) = sys_call os Epoll_create1 w8 in
      if ep < 0 then close_and_throw os sk e8 ''epoll_create1'' w9 else
      let ev = Some \<lparr>ep_events = EPOLLIN OR EPOLLET, ep_data = word_of_int sk\<rparr>;
          ((r9, e9), w10) = sys_call os (Epoll_ctl ep EPOLL_CTL_ADD sk ev) w9 in
      if r9 < 0 then close_and_throw os sk e9 ''epoll_ctl(EPOLL_CTL_ADD)'' (sys_close os ep w10)
      else (Inr (s\<lparr>sock := sk, epoll_fd := ep\<rparr>), w10))"

section \<open>Constructor and destructor\<close>

definition PingScanner_new ::
    "'w os \<Rightarrow> PingScannerConfig \<Rightarrow> 'w world \<Rightarrow> (fault + ping_scanner \<times> 'w ping_state) \<times> 'w world" where
  "PingScanner_new os config w =
     (let (ni, w1) = fetch os (cfg_base_ip config) (word_of_nat (cfg_total_hosts config)) w;
          s = ping_members config ni
      in case initialize_socket os s w1 of
           (Inl e, w2) \<Rightarrow> (Inl e, w2)
         | (Inr s1, w2) \<Rightarrow> (Inr (s1, initialize_buffers s1 w2), w2))"

definition PingScanner_delete :: "'w os \<Rightarrow> ping_scanner \<Rightarrow> 'w world \<Rightarrow> 'w world" where
  "PingScanner_delete os s w =
     (let w1 = (if sock s \<ge> 0 then sys_close os (sock s) w else w)
      in if epoll_fd s \<ge> 0 then sys_close os (epoll_fd s) w1 else w1)"

section \<open>Lemmas\<close>

text \<open>
  Every error path gives back the ledger of the start; success leaves exactly the two descriptors.
\<close>

lemma initialize_socket_led:
  assumes "initialize_socket os s w = (r, w')"
  shows "case r of
      Inl f \<Rightarrow> led w' = led w
    | Inr s' \<Rightarrow> s' = s\<lparr>sock := sock s', epoll_fd := epoll_fd s'\<rparr> \<and> 0 \<le> sock s' \<and> 0 \<le> epoll_fd s' \<and>
        open_fds (led w') = epoll_fd s' # sock s' # open_fds (led w) \<and>
        bad_closes (led w') = bad_closes (led w)"
  using assms
  by (auto simp: initialize_socket_def close_and_throw_def Let_def dest!: led_dests
      split: prod.splits if_splits)

lemma PingScanner_delete_led:
  assumes "open_fds (led w) = epoll_fd s # sock s # fds" and "0 \<le> sock s" and "0 \<le> epoll_fd s"
  shows "open_fds (led (PingScanner_delete os s w)) = fds"
    and "bad_closes (led (PingScanner_delete os s w)) = bad_closes (led w)"
  using assms by (auto simp: PingScanner_delete_def)

text \<open>
  The configurations the scanner is sound for: a block inside the address space of at most half of
  it (what \<^verbatim>\<open>parse_cidr\<close> yields for every prefix but 0), slot numbers that fit an \<^verbatim>\<open>int\<close>, and
  packets whose batch buffer has a size.
\<close>

definition config_ok :: "PingScannerConfig \<Rightarrow> bool" where
  "config_ok c \<longleftrightarrow> unat (cfg_base_ip c) + cfg_total_hosts c \<le> 2 ^ 32 \<and> cfg_total_hosts c \<le> 2 ^ 31 \<and>
     cfg_max_probes c < 2 ^ 31 \<and> cfg_payload_len c < 2 ^ 31"

lemma ping_members_ok:
  assumes "config_ok c"
  shows "scanner_ok (ping_members c ni)" and "packet_ok (ping_members c ni)"
proof -
  show "scanner_ok (ping_members c ni)"
    using assms by (auto simp: config_ok_def scanner_ok_def ping_members_def)
  let ?s = "ping_members c ni"
  have pk: "packet_buffer_size ?s = 32 + payload_len ?s" "payload_len ?s < 2 ^ 31"
    using assms by (simp_all add: config_ok_def ping_members_def size_add_def sizeof_IcmpHdr_def
        sizeof_PingPayload_def)
  have "send_count ?s \<le> 2 ^ 32"
    by (simp add: send_count_def ping_members_def safe_batch_size_def UINT_MAX_def Let_def)
  then have "send_count ?s * packet_buffer_size ?s \<le> 2 ^ 32 * packet_buffer_size ?s"
    by (rule mult_le_mono1)
  also have "\<dots> < 2 ^ 64" using pk by simp
  finally show "packet_ok ?s" using pk by (simp add: packet_ok_def)
qed

lemma scanner_ok_fds: "scanner_ok (s\<lparr>sock := a, epoll_fd := b\<rparr>) = scanner_ok s"
  "packet_ok (s\<lparr>sock := a, epoll_fd := b\<rparr>) = packet_ok s"
  by (simp_all add: scanner_ok_def packet_ok_def send_count_def)

lemma PingScanner_new_cases:
  assumes "PingScanner_new os config w = (r, w')" and "config_ok config"
  shows "case r of
      Inl f \<Rightarrow> led w' = led w
    | Inr (s, st) \<Rightarrow> scanner_ok s \<and> packet_ok s \<and> sized s st \<and> world st = w' \<and>
        base_ip s = cfg_base_ip config \<and> total_hosts s = cfg_total_hosts config \<and>
        has_callback s = cfg_result_callback config \<and>
        0 \<le> sock s \<and> 0 \<le> epoll_fd s \<and>
        open_fds (led w') = epoll_fd s # sock s # open_fds (led w) \<and>
        bad_closes (led w') = bad_closes (led w)"
proof -
  obtain ni w1 where f: "fetch os (cfg_base_ip config) (word_of_nat (cfg_total_hosts config)) w = (ni, w1)"
    by (metis surj_pair)
  obtain q w2 where q: "initialize_socket os (ping_members config ni) w1 = (q, w2)" by (metis surj_pair)
  have led: "led w1 = led w" using f by (rule fetch_led)
  note sl = initialize_socket_led [OF q, unfolded led]
  show ?thesis
  proof (cases q)
    case (Inl e)
    with assms(1) f q sl show ?thesis by (auto simp: PingScanner_new_def)
  next
    case (Inr s1)
    then have rw: "r = Inr (s1, initialize_buffers s1 w2)" "w' = w2"
      using assms(1) f q by (auto simp: PingScanner_new_def)
    obtain a b where s1: "s1 = (ping_members config ni)\<lparr>sock := a, epoll_fd := b\<rparr>"
      using sl Inr by auto
    have "packet_ok s1" "scanner_ok s1" using ping_members_ok [OF assms(2)] by (simp_all add: s1 scanner_ok_fds)
    moreover have "world (initialize_buffers s1 w2) = w2" by (simp add: initialize_buffers_def)
    ultimately show ?thesis
      using sl Inr rw initialize_buffers_sized by (simp add: s1 ping_members_def)
  qed
qed

section \<open>A scan from construction to destruction\<close>

text \<open>
  The block of \<^verbatim>\<open>execute_network_scan\<close> in \<^verbatim>\<open>src/main.cpp\<close> that scans: read the clock, construct, run,
  read the clock, destroy. The result comes with what the callback was given and the two readings.
\<close>

definition ping_session ::
    "'w os \<Rightarrow> u32 \<Rightarrow> PingScannerConfig \<Rightarrow> 'w world
      \<Rightarrow> ((PingScanResult \<times> PingHostResult list \<times> timespec \<times> timespec) \<times> 'w world) outcome" where
  "ping_session os pad config w =
     (let (scan_start_time, w0) = on_env (os_clock_gettime os) w in
      case PingScanner_new os config w0 of
        (Inl e, w1) \<Rightarrow> Some (Inl e)
      | (Inr (s, st), w1) \<Rightarrow> seq (run os pad s st) (\<lambda>(results, st1).
          let (scan_end_time, w2) = on_env (os_clock_gettime os) (world st1)
          in Some (Inr ((results, reported st1, scan_start_time, scan_end_time),
                        PingScanner_delete os s w2))))"

lemma ping_session_spec:
  fixes os :: "'w os"
  assumes "config_ok config" and "ping_session os pad config w = Some (Inr ((res, shown, t0, t1), w'))"
  obtains s and st' :: "'w ping_state" where "led w' = led w" "res = scan_result st'"
    "scan_done s (led (world st')) scan_start st'" "scanner_ok s" "base_ip s = cfg_base_ip config"
    "total_hosts s = cfg_total_hosts config" "shown = (if cfg_result_callback config then hosts res else [])"
proof -
  obtain c w0 where c: "on_env (os_clock_gettime os) w = (c, w0)" by (metis surj_pair)
  obtain q w1 where new: "PingScanner_new os config w0 = (q, w1)" by (metis surj_pair)
  then obtain s st where q: "q = Inr (s, st)"
    using assms(2) c by (cases q) (auto simp: ping_session_def)
  note N = PingScanner_new_cases [OF new assms(1), unfolded q sum.case prod.case]
  from assms(2) new q c obtain st' e w2 where go: "run os pad s st = Some (Inr (res, st'))"
    and e: "on_env (os_clock_gettime os) (world st') = (e, w2)"
    and w': "w' = PingScanner_delete os s w2" and shown: "shown = reported st'"
    by (auto simp: ping_session_def elim!: seq_InrE split: prod.splits)
  have R: "res = scan_result st'" "scan_done s (led (world st)) scan_start st'"
    using run_spec [OF _ _ _ go] N by auto
  then have led: "led w2 = led w1" "led w0 = led w" using N on_env_led [OF e] on_env_led [OF c]
    by (simp_all add: scan_done_def)
  have "open_fds (led w') = open_fds (led w)" "bad_closes (led w') = bad_closes (led w)"
    using N led PingScanner_delete_led [of w2 s "open_fds (led w)" os] by (simp_all add: w')
  then have "led w' = led w" by simp
  moreover have "shown = (if cfg_result_callback config then hosts res else [])"
    using R N by (simp add: shown scan_done_def ping_inv_def found_inv_def scan_result_def)
  ultimately show thesis by (intro that [of st' s]) (use R N led on_env_led [OF e] in simp_all)
qed

end
