(* ===== verification/Tcp_Scanner.thy ===== *)
theory Tcp_Scanner
  imports Scanner_Base "HOL-Library.Multiset"
begin

text \<open>
  The TCP scanner (\<^verbatim>\<open>include/tcp_scanner.hpp\<close>, \<^verbatim>\<open>src/tcp_scanner.cpp\<close>): its data, the start of one
  connection and of a batch of them, the poll for finished connections, the sweep for overdue
  ones, and \<^verbatim>\<open>run\<close>. Each active probe owns a socket; the invariant \<open>tcp_inv\<close> says that the ledger of
  descriptors holds exactly those sockets on top of what was open before.
\<close>

section \<open>Data\<close>

record TcpHostResult = host_result +
  port :: u16

record TcpScannerConfig =
  tcfg_base_ip :: u32
  tcfg_total_hosts :: size_t
  tcfg_target_port :: u16
  tcfg_max_probes :: size_t
  tcfg_timeout_ms :: u32
  tcfg_batch_size :: size_t
  tcfg_resolve_dns :: bool
  tcfg_result_callback :: bool

record tcp_probe = probe +
  tcp_sock :: int

record tcp_scanner = scanner +
  target_port :: u16
  batch_size :: size_t

record 'w tcp_state =
  t_probe_table :: "tcp_probe list"
  t_next_host_idx :: size_t
  t_active_probes :: size_t
  t_hosts_found :: size_t
  t_scan_results :: "TcpHostResult list"
  t_reported :: "TcpHostResult list"
  t_world :: "'w world"

definition TcpProbe_init :: tcp_probe where
  "TcpProbe_init =
     \<lparr>active = False, dest_ip = 0, send_time = \<lparr>tv_sec = 0, tv_nsec = 0\<rparr>, tcp_sock = -1\<rparr>"

definition tcp_members :: "TcpScannerConfig \<Rightarrow> NetworkInterface \<Rightarrow> tcp_scanner" where
  "tcp_members config ni =
     \<lparr>base_ip = tcfg_base_ip config,
      total_hosts = tcfg_total_hosts config,
      network_interface = ni,
      max_probes = min (tcfg_max_probes config) (tcfg_total_hosts config),
      timeout_ms = tcfg_timeout_ms config,
      resolve_dns = tcfg_resolve_dns config,
      has_callback = tcfg_result_callback config,
      epoll_fd = -1,
      target_port = tcfg_target_port config,
      batch_size = safe_batch_size (tcfg_batch_size config) (tcfg_total_hosts config)\<rparr>"

section \<open>Construction and destruction\<close>

definition TcpScanner_new ::
    "'w os \<Rightarrow> TcpScannerConfig \<Rightarrow> 'w world \<Rightarrow> (fault + tcp_scanner \<times> 'w tcp_state) \<times> 'w world" where
  "TcpScanner_new os config w =
     (let (ni, w1) = fetch os (tcfg_base_ip config) (word_of_nat (tcfg_total_hosts config)) w;
          s = tcp_members config ni;
          ((ep, e), w2) = sys_call os Epoll_create1 w1
      in if ep < 0 then (Inl (System_error e ''epoll_create1''), w2)
         else (Inr (s\<lparr>epoll_fd := ep\<rparr>,
                 \<lparr>t_probe_table = replicate (max_probes s) TcpProbe_init,
                  t_next_host_idx = 0, t_active_probes = 0, t_hosts_found = 0,
                  t_scan_results = [], t_reported = [], t_world = w2\<rparr>), w2))"

definition TcpScanner_delete :: "'w os \<Rightarrow> tcp_scanner \<Rightarrow> 'w tcp_state \<Rightarrow> 'w world" where
  "TcpScanner_delete os s st =
     (let w1 = fold (\<lambda>p w. if active p \<and> tcp_sock p \<ge> 0 then sys_close os (tcp_sock p) w else w)
                 (t_probe_table st) (t_world st)
      in if epoll_fd s \<ge> 0 then sys_close os (epoll_fd s) w1 else w1)"

section \<open>Starting connections\<close>

text \<open>\<^verbatim>\<open>static_cast<int>(max_probes_) * 1024\<close>, undefined when it does not fit an \<^verbatim>\<open>int\<close>.\<close>

definition tcp_buf_size :: "tcp_scanner \<Rightarrow> int option" where
  "tcp_buf_size s =
     (let n = cast_int (max_probes s) * 1024
      in if - (2 ^ 31) \<le> n \<and> n < 2 ^ 31 then Some n else None)"

definition set_buffer :: "'w os \<Rightarrow> int \<Rightarrow> sock_option \<Rightarrow> int \<Rightarrow> string \<Rightarrow> 'w world \<Rightarrow> 'w world" where
  "set_buffer os fd opt n what w =
     (let ((r, e), w1) = sys_call os (Setsockopt fd opt n) w
      in if r < 0 then snd (sys_call os (Perror what) w1) else w1)"

text \<open>
  From \<^verbatim>\<open>socket()\<close> to \<^verbatim>\<open>epoll_ctl()\<close>: the descriptor of a connection under way, or \<open>None\<close> when a call
  failed and the descriptor, if there was one, is closed again.
\<close>

definition connect_socket ::
    "'w os \<Rightarrow> tcp_scanner \<Rightarrow> u32 \<Rightarrow> int \<Rightarrow> 'w world \<Rightarrow> fault + int option \<times> 'w world" where
  "connect_socket os s target slot w =
     (let ((fd, e0), w1) = sys_call os (Socket Tcp_socket) w
      in if fd < 0 then Inr (None, w1)
         else
      case tcp_buf_size s of None \<Rightarrow> Inl Signed_overflow | Some buf_size \<Rightarrow>
      let w2 = set_buffer os fd SO_SNDBUF buf_size ''setsockopt(SO_SNDBUF)'' w1;
          w3 = set_buffer os fd SO_RCVBUF buf_size ''setsockopt(SO_RCVBUF)'' w2;
          ((flags, e1), w4) = sys_call os (Fcntl_getfl fd) w3
      in if flags < 0 then Inr (None, sys_close os fd w4)
         else
      let ((r2, e2), w5) = sys_call os (Fcntl_setfl fd (word_of_int flags OR O_NONBLOCK)) w4
      in if r2 < 0 then Inr (None, sys_close os fd w5)
         else
      let ((res, e3), w6) = sys_call os (Connect fd (htonl target) (htons (target_port s))) w5
      in if res < 0 \<and> e3 \<noteq> EINPROGRESS then Inr (None, sys_close os fd w6)
         else
      let ev = Some \<lparr>ep_events = EPOLLOUT OR EPOLLERR OR EPOLLHUP, ep_data = word_of_int slot\<rparr>;
          ((r4, e4), w7) = sys_call os (Epoll_ctl (epoll_fd s) EPOLL_CTL_ADD fd ev) w6
      in if r4 < 0 then Inr (None, sys_close os fd w7)
         else Inr (Some fd, w7))"

definition initiate_single_connection ::
    "'w os \<Rightarrow> tcp_scanner \<Rightarrow> 'w tcp_state \<Rightarrow> fault + bool \<times> 'w tcp_state" where
  "initiate_single_connection os s st =
     (let target = base_ip s + word_of_nat (t_next_host_idx st);
          ni = network_interface s;
          st1 = st\<lparr>t_next_host_idx := Suc (t_next_host_idx st)\<rparr>
      in if is_local ni \<and> (target = network_ip ni \<or> target = broadcast_ip ni) then Inr (True, st1)
         else
      let slot = find_slot_from 0 (t_probe_table st)
      in if slot = -1 then Inr (False, st)
         else
      case connect_socket os s target slot (t_world st1) of
        Inl e \<Rightarrow> Inl e
      | Inr (None, w) \<Rightarrow> Inr (True, st1\<lparr>t_world := w\<rparr>)
      | Inr (Some fd, w) \<Rightarrow>
          let (now, w1) = on_env (os_clock_gettime os) w;
              p = \<lparr>active = True, dest_ip = target, send_time = now, tcp_sock = fd\<rparr>
          in Inr (True, st1\<lparr>t_world := w1,
                           t_probe_table := (t_probe_table st1)[nat slot := p],
                           t_active_probes := size_add (t_active_probes st1) 1\<rparr>))"

lemma initiate_next:
  "initiate_single_connection os s st = Inr (True, st1) \<Longrightarrow>
    t_next_host_idx st1 = Suc (t_next_host_idx st)"
  by (auto simp: initiate_single_connection_def Let_def split: if_splits prod.splits option.splits sum.splits)

function initiate_connections ::
    "'w os \<Rightarrow> tcp_scanner \<Rightarrow> nat \<Rightarrow> 'w tcp_state \<Rightarrow> fault + 'w tcp_state" where
  "initiate_connections os s initiated st =
     (if t_next_host_idx st < total_hosts s \<and> t_active_probes st < max_probes s \<and>
         initiated < batch_size s
      then case initiate_single_connection os s st of
          Inl e \<Rightarrow> Inl e
        | Inr (False, st1) \<Rightarrow> Inr st1
        | Inr (True, st1) \<Rightarrow>
            initiate_connections os s
              (if t_next_host_idx st1 > t_next_host_idx st then Suc initiated else initiated) st1
      else Inr st)"
  by pat_completeness auto
termination
  by (relation "measure (\<lambda>(os, s, n, st). total_hosts s - t_next_host_idx st)")
    (auto dest: initiate_next)

declare initiate_connections.simps [simp del]

section \<open>Finished connections\<close>

text \<open>
  One event of \<^verbatim>\<open>epoll_wait\<close>, and in it the report of an open port. The text buffer of the loop,
  \<^verbatim>\<open>ip_str\<close>, is declared outside it and handed from one event to the next.
\<close>

definition report_open ::
    "'w os \<Rightarrow> tcp_scanner \<Rightarrow> tcp_probe \<Rightarrow> int \<Rightarrow> string \<times> 'w tcp_state \<Rightarrow> string \<times> 'w tcp_state" where
  "report_open os s p d buf_st =
     (let (buf, st) = buf_st;
          ip_text = format_ip (os_inet_ntop os) (dest_ip p) buf INET_ADDRSTRLEN;
          (name, w) = (if resolve_dns s then resolve_hostname os (dest_ip p) (t_world st)
                       else (''N/A'', t_world st));
          result = \<lparr>ip = dest_ip p, ip_str = ip_text, hostname = name, rtt_ms = rtt_of d,
                    port = target_port s\<rparr>;
          st1 = st\<lparr>t_world := w,
                   t_reported := (if has_callback s then t_reported st @ [result] else t_reported st)\<rparr>
      in if list_ex (\<lambda>q. ip q = dest_ip p) (t_scan_results st1)
         then (ip_text, st1)
         else (ip_text, st1\<lparr>t_scan_results := t_scan_results st1 @ [result],
                           t_hosts_found := Suc (t_hosts_found st1)\<rparr>))"

definition poll_one ::
    "'w os \<Rightarrow> tcp_scanner \<Rightarrow> epoll_event \<Rightarrow> string \<times> 'w tcp_state \<Rightarrow> fault + string \<times> 'w tcp_state" where
  "poll_one os s ev buf_st =
     (let (buf, st) = buf_st;
          raw_slot = unat (ep_data ev)
      in if raw_slot \<ge> length (t_probe_table st) then Inr (buf, st)
         else
      let p = t_probe_table st ! raw_slot
      in if \<not> active p then Inr (buf, st)
         else
      let ((r, e, v), w1) = on_env (os_getsockopt_error os (tcp_sock p)) (t_world st);
          sock_err = (if r < 0 then e else v);
          w2 = snd (sys_call os (Epoll_ctl (epoll_fd s) EPOLL_CTL_DEL (tcp_sock p) None) w1);
          w3 = sys_close os (tcp_sock p) w2;
          (now, w4) = on_env (os_clock_gettime os) w3;
          st1 = st\<lparr>t_probe_table := (t_probe_table st)[raw_slot := p\<lparr>active := False\<rparr>],
                   t_active_probes := size_sub (t_active_probes st) 1,
                   t_world := w4\<rparr>
      in case diff_ns now (send_time p) of
           None \<Rightarrow> Inl Signed_overflow
         | Some d \<Rightarrow>
             if sock_err \<noteq> 0 then Inr (buf, st1)
             else Inr (report_open os s p d (buf, st1)))"

fun poll_all ::
    "'w os \<Rightarrow> tcp_scanner \<Rightarrow> epoll_event list \<Rightarrow> string \<times> 'w tcp_state \<Rightarrow> fault + string \<times> 'w tcp_state" where
  "poll_all os s [] bs = Inr bs"
| "poll_all os s (ev # evs) bs =
     (case poll_one os s ev bs of Inl e \<Rightarrow> Inl e | Inr bs1 \<Rightarrow> poll_all os s evs bs1)"

text \<open>
  A negative \<^verbatim>\<open>max_events\<close> would be the size of a vector. The kernel fills as many events as it
  returns, none when it fails.
\<close>

definition poll_connections :: "'w os \<Rightarrow> tcp_scanner \<Rightarrow> 'w tcp_state \<Rightarrow> fault + 'w tcp_state" where
  "poll_connections os s st =
     (let max_events = cast_int (batch_size s)
      in if max_events < 0 then Inl Length_error
         else
           let ((event_count, e, evs), w) =
                 on_env (os_epoll_wait os (epoll_fd s) (nat max_events) EPOLL_TIMEOUT_MS) (t_world st)
           in case poll_all os s (take (nat event_count) evs) ([], st\<lparr>t_world := w\<rparr>) of
                Inl e \<Rightarrow> Inl e
              | Inr (buf, st1) \<Rightarrow> Inr st1)"

section \<open>Overdue connections\<close>

definition tcp_reap_slot ::
    "'w os \<Rightarrow> tcp_scanner \<Rightarrow> timespec \<Rightarrow> nat \<Rightarrow> 'w tcp_state \<Rightarrow> fault + 'w tcp_state" where
  "tcp_reap_slot os s current_time slot st =
     (let p = t_probe_table st ! slot
      in if \<not> active p then Inr st
         else case diff_ns current_time (send_time p) of
             None \<Rightarrow> Inl Signed_overflow
           | Some elapsed_ns \<Rightarrow>
               if elapsed_ns > timeout_ns (timeout_ms s) then
                 (let w1 = snd (sys_call os
                        (Epoll_ctl (epoll_fd s) EPOLL_CTL_DEL (tcp_sock p) None) (t_world st))
                  in Inr (st\<lparr>t_world := sys_close os (tcp_sock p) w1,
                            t_probe_table := (t_probe_table st)[slot := p\<lparr>active := False\<rparr>],
                            t_active_probes := size_sub (t_active_probes st) 1\<rparr>))
               else Inr st)"

fun tcp_reap_slots ::
    "'w os \<Rightarrow> tcp_scanner \<Rightarrow> timespec \<Rightarrow> nat list \<Rightarrow> 'w tcp_state \<Rightarrow> fault + 'w tcp_state" where
  "tcp_reap_slots os s current_time [] st = Inr st"
| "tcp_reap_slots os s current_time (slot # rest) st =
     (case tcp_reap_slot os s current_time slot st of
        Inl e \<Rightarrow> Inl e
      | Inr st1 \<Rightarrow> tcp_reap_slots os s current_time rest st1)"

definition tcp_reap_timed_out_probes ::
    "'w os \<Rightarrow> tcp_scanner \<Rightarrow> 'w tcp_state \<Rightarrow> fault + 'w tcp_state" where
  "tcp_reap_timed_out_probes os s st =
     (let (current_time, w) = on_env (os_clock_gettime os) (t_world st)
      in tcp_reap_slots os s current_time [0..<length (t_probe_table st)] (st\<lparr>t_world := w\<rparr>))"

section \<open>The scan loop\<close>

partial_function (option) tcp_run_loop ::
    "'w os \<Rightarrow> tcp_scanner \<Rightarrow> 'w tcp_state \<Rightarrow> 'w tcp_state outcome" where
  "tcp_run_loop os s st =
     (if t_next_host_idx st < total_hosts s \<or> t_active_probes st > 0 then
        seq (Some (initiate_connections os s 0 st)) (\<lambda>st1.
          seq (Some (poll_connections os s st1)) (\<lambda>st2.
            seq (Some (tcp_reap_timed_out_probes os s st2)) (\<lambda>st3. tcp_run_loop os s st3)))
      else Some (Inr st))"

text \<open>\<^verbatim>\<open>run()\<close> starts with fresh local counters and results, but keeps the probe table.\<close>

definition tcp_run :: "'w os \<Rightarrow> tcp_scanner \<Rightarrow> 'w tcp_state \<Rightarrow> (TcpHostResult list \<times> 'w tcp_state) outcome" where
  "tcp_run os s st =
     seq (tcp_run_loop os s (st\<lparr>t_next_host_idx := 0, t_active_probes := 0, t_hosts_found := 0,
            t_scan_results := [], t_reported := []\<rparr>))
       (\<lambda>st1. Some (Inr (t_scan_results st1, st1)))"

end
