(* ===== verification/Clock.thy ===== *)
theory Clock
  imports Scanner_Base
begin

text \<open>
  The clock, as far as the end of a scan depends on it: the interface \<open>advancing_clock\<close> of a kernel
  whose clock is never set back and gives later readings each time it is read; and a potential for
  probe tables, \<open>load\<close>, that falls as the clock advances. \<open>now v\<close> is the time in environment \<open>v\<close>.
\<close>

section \<open>A clock that advances\<close>

locale advancing_clock =
  fixes os :: "'w os" and now :: "'w \<Rightarrow> int"
  assumes call_time: "now v \<le> now (snd (os_call os q v))"
    and clock_time: "now v \<le> ns_of (fst (os_clock_gettime os v))"
      "ns_of (fst (os_clock_gettime os v)) < now (snd (os_clock_gettime os v))"
    and getpid_time: "now v \<le> now (snd (os_getpid os v))"
    and getnameinfo_time: "now v \<le> now (snd (os_getnameinfo os a v))"
    and getsockopt_time: "now v \<le> now (snd (os_getsockopt_error os fd v))"
    and epoll_wait_time: "now v \<le> now (snd (os_epoll_wait os ep n tmo v))"
    and sendmmsg_time: "now v \<le> now (snd (os_sendmmsg os fd msgs v))"
    and recvmmsg_time: "now v \<le> now (snd (os_recvmmsg os fd n v))"
begin

definition time :: "'w world \<Rightarrow> int" where
  "time w = now (env w)"

lemma time_sys_call: "sys_call os q w = (r, w') \<Longrightarrow> time w \<le> time w'"
  using call_time [of "env w" q] by (auto simp: sys_call_def time_def split: prod.splits)

lemma time_sys_call' [simp]: "time w \<le> time (snd (sys_call os q w))"
  using time_sys_call by (metis prod.collapse)

lemma time_close [simp]: "time w \<le> time (sys_close os fd w)"
  by (simp add: sys_close_def)

lemma time_on_env: "on_env f w = (r, w') \<Longrightarrow> (\<And>v. now v \<le> now (snd (f v))) \<Longrightarrow> time w \<le> time w'"
  by (auto simp: on_env_def time_def split: prod.splits) (metis snd_conv)

lemma time_reading:
  assumes "on_env (os_clock_gettime os) w = (t, w')"
  shows "time w \<le> ns_of t" and "ns_of t < time w'"
  using assms clock_time [of "env w"] by (auto simp: on_env_def time_def split: prod.splits)

lemma time_clock: "on_env (os_clock_gettime os) w = (t, w') \<Longrightarrow> time w \<le> time w'"
  using time_reading by fastforce

lemma time_resolve: "resolve_hostname os a w = (name, w') \<Longrightarrow> time w \<le> time w'"
  by (auto simp: resolve_hostname_def dest: time_on_env [OF _ getnameinfo_time] split: prod.splits)

lemmas time_dests = time_sys_call time_clock time_resolve time_on_env [OF _ getpid_time]
  time_on_env [OF _ getsockopt_time] time_on_env [OF _ epoll_wait_time]
  time_on_env [OF _ sendmmsg_time] time_on_env [OF _ recvmmsg_time]

end

lemma diff_ns_SomeD: "diff_ns now t = Some d \<Longrightarrow> d = ns_of now - ns_of t"
  by (auto simp: diff_ns_def ns_of_def NANOSECONDS_PER_SECOND_LL_def algebra_simps split: bind_splits)

section \<open>The load of a probe table\<close>

text \<open>
  What the probes in flight still cost: each one step, and the time until it is overdue.
\<close>

definition weight :: "u32 \<Rightarrow> int \<Rightarrow> 'a probe_scheme \<Rightarrow> nat" where
  "weight tmo n p = Suc (nat (ns_of (send_time p) + timeout_ns tmo + 1 - n))"

definition load :: "u32 \<Rightarrow> int \<Rightarrow> 'a probe_scheme list \<Rightarrow> nat" where
  "load tmo n t = sum_list (map (weight tmo n) (filter active t))"

lemma weight_mono: "n \<le> n' \<Longrightarrow> weight tmo n' p \<le> weight tmo n p"
  by (simp add: weight_def nat_mono)

lemma load_mono: "n \<le> n' \<Longrightarrow> load tmo n' t \<le> load tmo n t"
  unfolding load_def by (intro sum_list_mono weight_mono)

lemma load_clear:
  assumes "i < length t" "active (t ! i)" "\<not> active p"
  shows "load tmo n t = weight tmo n (t ! i) + load tmo n (t[i := p])"
  using assms unfolding load_def
proof (induction t arbitrary: i)
  case (Cons x t)
  then show ?case by (cases i) auto
qed simp

lemma load_occupy:
  assumes "i < length t" "\<not> active (t ! i)" "active p"
  shows "load tmo n (t[i := p]) = weight tmo n p + load tmo n t"
  using assms unfolding load_def
proof (induction t arbitrary: i)
  case (Cons x t)
  then show ?case by (cases i) auto
qed simp

lemma load_0: "load tmo n t = 0 \<longleftrightarrow> count_active t = 0"
  by (cases "filter active t") (auto simp: load_def count_active_def weight_def)

lemma weight_new: "ns_of (send_time p) < n \<Longrightarrow> weight tmo n p \<le> Suc (nat (timeout_ns tmo))"
  by (simp add: weight_def nat_mono)

lemma weight_ages:
  assumes "ns_of t - ns_of (send_time p) \<le> timeout_ns tmo" and "n \<le> ns_of t" and "ns_of t < n'"
  shows "weight tmo n' p < weight tmo n p"
  using assms by (simp add: weight_def)

end
