(* ===== verification/Tcp_Run.thy ===== *)
theory Tcp_Run
  imports Tcp_Scanner Clock
begin

text \<open>
  The lemmas about the TCP scanner. An active probe owns a socket and a target: the invariant
  \<open>tcp_inv\<close> counts the sockets in the ledger of descriptors and the targets in the table and the
  results, so that nothing is leaked, closed twice, probed twice or reported twice. Every operation
  keeps it, \<open>run\<close> ends in it with no probe left, and the destructor gives the ledger back.
\<close>

section \<open>What the active probes own\<close>

definition active_of :: "('a probe_scheme \<Rightarrow> 'b) \<Rightarrow> 'a probe_scheme list \<Rightarrow> 'b multiset" where
  "active_of f t = mset (map f (filter active t))"

lemma active_of_update:
  assumes "i < length t"
  shows "filter_mset active (mset (t[i := p])) =
    (if active p then {#p#} else {#}) + (filter_mset active (mset t) - (if active (t ! i) then {#t ! i#} else {#}))"
  using assms by (simp add: mset_update)

lemma active_of_occupy:
  "i < length t \<Longrightarrow> \<not> active (t ! i) \<Longrightarrow> active p \<Longrightarrow> active_of f (t[i := p]) = add_mset (f p) (active_of f t)"
  by (simp add: active_of_def active_of_update)

lemma active_of_clear:
  assumes "i < length t" "active (t ! i)" "\<not> active p"
  shows "active_of f t = add_mset (f (t ! i)) (active_of f (t[i := p]))"
proof -
  have "t ! i \<in># filter_mset active (mset t)" using assms by simp
  then have "filter_mset active (mset t) = add_mset (t ! i) (filter_mset active (mset (t[i := p])))"
    using assms by (simp add: active_of_update)
  then show ?thesis by (simp add: active_of_def)
qed

lemma active_of_set: "set_mset (active_of f t) = f ` {p \<in> set t. active p}"
  by (auto simp: active_of_def)

lemma active_of_none: "count_active t = 0 \<Longrightarrow> active_of f t = {#}"
  by (simp add: active_of_def count_active_def)

section \<open>The invariant\<close>

text \<open>
  \<open>tried s st a\<close>: the scan has passed by target \<open>a\<close>. \<open>d0\<close> is the ledger without the probes.
\<close>

definition tried :: "tcp_scanner \<Rightarrow> 'w tcp_state \<Rightarrow> u32 \<Rightarrow> bool" where
  "tried s st a \<longleftrightarrow> (\<exists>h<t_next_host_idx st. a = host_ip s h) \<and> \<not> skipped s a"

definition ledger_inv :: "descriptors \<Rightarrow> 'w tcp_state \<Rightarrow> bool" where
  "ledger_inv d0 st \<longleftrightarrow>
     mset (open_fds (led (t_world st))) = mset (open_fds d0) + active_of tcp_sock (t_probe_table st) \<and>
     bad_closes (led (t_world st)) = bad_closes d0 \<and>
     (\<forall>fd\<in>#active_of tcp_sock (t_probe_table st). 0 \<le> fd)"

text \<open>A target is tried before it is probed or found, and is probed or found at most once.\<close>

definition once_inv :: "tcp_scanner \<Rightarrow> 'w tcp_state \<Rightarrow> bool" where
  "once_inv s st \<longleftrightarrow>
     (\<forall>a. count (active_of dest_ip (t_probe_table st) + mset (map ip (t_scan_results st))) a
        \<le> (if tried s st a then 1 else 0))"

definition tcp_inv :: "tcp_scanner \<Rightarrow> descriptors \<Rightarrow> 'w tcp_state \<Rightarrow> bool" where
  "tcp_inv s d0 st \<longleftrightarrow>
     length (t_probe_table st) = max_probes s \<and>
     t_active_probes st = count_active (t_probe_table st) \<and>
     t_next_host_idx st \<le> total_hosts s \<and>
     once_inv s st \<and>
     (\<forall>r\<in>set (t_scan_results st). 0 \<le> rtt_ms r \<and> port r = target_port s) \<and>
     t_hosts_found st = length (t_scan_results st) \<and>
     t_reported st = (if has_callback s then t_scan_results st else []) \<and>
     ledger_inv d0 st"

lemma tcp_inv_once:
  "tcp_inv s d0 st \<Longrightarrow> count (active_of dest_ip (t_probe_table st) + mset (map ip (t_scan_results st))) a
    \<le> (if tried s st a then 1 else 0)"
  unfolding tcp_inv_def once_inv_def by blast

lemma distinct_if_once:
  assumes "\<And>a. count (mset xs) a \<le> 1"
  shows "distinct xs"
  unfolding distinct_count_atmost_1
proof
  fix a
  have "count (mset xs) a = 0 \<longleftrightarrow> a \<notin> set xs" by (rule count_mset_0_iff)
  with assms [of a] show "count (mset xs) a = (if a \<in> set xs then 1 else 0)"
    by (cases "count (mset xs) a") auto
qed

lemma tcp_inv_results:
  assumes "tcp_inv s d0 st"
  shows "distinct (map ip (t_scan_results st))" "\<forall>r\<in>set (t_scan_results st). tried s st (ip r)"
proof -
  let ?xs = "map ip (t_scan_results st)"
  have c: "count (mset ?xs) a \<le> (if tried s st a then 1 else 0)" for a
    using tcp_inv_once [OF assms, of a] unfolding count_union by (rule order_trans [rotated]) (rule le_add2)
  show "distinct ?xs"
    by (rule distinct_if_once) (rule order_trans [OF c], simp)
  have "a \<notin> set ?xs" if "\<not> tried s st a" for a
    using c [of a] that unfolding count_mset_0_iff [of ?xs a, symmetric] by simp
  then show "\<forall>r\<in>set (t_scan_results st). tried s st (ip r)" by auto
qed

section \<open>Starting connections\<close>

lemma led_quiet [simp]:
  "led (snd (sys_call os (Perror x) w)) = led w"
  "led (snd (sys_call os (Epoll_ctl ep op fd ev) w)) = led w"
  by (simp_all add: sys_call_def split: prod.splits)

lemma set_buffer_led [simp]: "led (set_buffer os fd opt n what w) = led w"
  by (auto simp: set_buffer_def Let_def dest!: led_dests split: prod.splits)

lemma connect_socket_led:
  assumes "connect_socket os s target slot w = Inr (q, w')"
  shows "case q of
      None \<Rightarrow> led w' = led w
    | Some fd \<Rightarrow> 0 \<le> fd \<and> open_fds (led w') = fd # open_fds (led w) \<and> bad_closes (led w') = bad_closes (led w)"
proof -
  obtain fd e0 w1 where c1: "sys_call os (Socket Tcp_socket) w = ((fd, e0), w1)" by (metis surj_pair)
  show ?thesis
  proof (cases "fd < 0")
    case True
    with assms sys_call_led [OF c1] show ?thesis by (auto simp: connect_socket_def c1)
  next
    case False
    then have L1: "led w1 = (led w)\<lparr>open_fds := fd # open_fds (led w)\<rparr>" using sys_call_led [OF c1] by simp
    obtain n where n: "tcp_buf_size s = Some n"
      using assms False by (cases "tcp_buf_size s") (simp_all add: connect_socket_def c1)
    define w3 where "w3 = set_buffer os fd SO_RCVBUF n ''setsockopt(SO_RCVBUF)''
        (set_buffer os fd SO_SNDBUF n ''setsockopt(SO_SNDBUF)'' w1)"
    obtain flags e1 w4 where c4: "sys_call os (Fcntl_getfl fd) w3 = ((flags, e1), w4)" by (metis surj_pair)
    obtain r2 e2 w5 where c5: "sys_call os (Fcntl_setfl fd (word_of_int flags OR O_NONBLOCK)) w4 = ((r2, e2), w5)"
      by (metis surj_pair)
    obtain res e3 w6 where c6: "sys_call os (Connect fd (htonl target) (htons (target_port s))) w5 = ((res, e3), w6)"
      by (metis surj_pair)
    obtain r4 e4 w7 where c7: "sys_call os (Epoll_ctl (epoll_fd s) EPOLL_CTL_ADD fd
        (Some \<lparr>ep_events = EPOLLOUT OR EPOLLERR OR EPOLLHUP, ep_data = word_of_int slot\<rparr>)) w6 = ((r4, e4), w7)"
      by (metis surj_pair)
    have L: "led w4 = led w1" "led w5 = led w1" "led w6 = led w1" "led w7 = led w1"
      using sys_call_led [OF c4] sys_call_led [OF c5] sys_call_led [OF c6] sys_call_led [OF c7]
      by (simp_all add: w3_def)
    have cl: "led (sys_close os fd v) = led w" if "led v = led w1" for v using that by (simp add: L1)
    show ?thesis
      using assms False L
      by (auto simp: connect_socket_def Let_def c1 n c4 c5 c6 c7 cl L1 simp flip: w3_def split: if_splits)
  qed
qed

text \<open>How the start of a connection ends: no free slot; a host left out; no connection; or a new probe.\<close>

lemma initiate_split:
  assumes "initiate_single_connection os s st = Inr (b, st1)" and "length (t_probe_table st) < 2 ^ 31"
  obtains (full) "\<not> b" "st1 = st" "\<forall>i<length (t_probe_table st). active (t_probe_table st ! i)"
    | (skip) "b" "st1 = st\<lparr>t_next_host_idx := Suc (t_next_host_idx st)\<rparr>"
    | (drop) w slot where "b" "st1 = st\<lparr>t_next_host_idx := Suc (t_next_host_idx st), t_world := w\<rparr>"
        "connect_socket os s (host_ip s (t_next_host_idx st)) slot (t_world st) = Inr (None, w)"
    | (conn) w w1 slot i fd ts where "b"
        "st1 = st\<lparr>t_next_host_idx := Suc (t_next_host_idx st), t_world := w1,
           t_probe_table := (t_probe_table st)[i := \<lparr>active = True,
             dest_ip = host_ip s (t_next_host_idx st), send_time = ts, tcp_sock = fd\<rparr>],
           t_active_probes := size_add (t_active_probes st) 1\<rparr>"
        "i < length (t_probe_table st)" "\<not> active (t_probe_table st ! i)"
        "\<not> skipped s (host_ip s (t_next_host_idx st))"
        "connect_socket os s (host_ip s (t_next_host_idx st)) slot (t_world st) = Inr (Some fd, w)"
        "on_env (os_clock_gettime os) w = (ts, w1)"
proof -
  let ?t = "t_probe_table st"
  let ?slot = "find_slot_from 0 ?t"
  let ?i = "nat ?slot"
  have slot: "(?slot = -1 \<and> (\<forall>i<length ?t. active (?t ! i))) \<or> (?slot \<noteq> -1 \<and> ?i < length ?t \<and> \<not> active (?t ! ?i))"
    using find_slot_from_bounds [of 0 ?t] assms(2) by auto
  show thesis
  proof (cases "skipped s (host_ip s (t_next_host_idx st)) \<or> ?slot = -1")
    case True
    then show thesis
      using assms(1) slot full skip
      by (auto simp: initiate_single_connection_def Let_def skipped_def host_ip_def split: if_splits)
  next
    case False
    obtain q w where q: "connect_socket os s (host_ip s (t_next_host_idx st)) ?slot (t_world st) = Inr (q, w)"
      using assms(1) False
      by (cases "connect_socket os s (host_ip s (t_next_host_idx st)) ?slot (t_world st)")
        (auto simp: initiate_single_connection_def Let_def skipped_def simp flip: host_ip_def)
    obtain now w1 where clk: "on_env (os_clock_gettime os) w = (now, w1)" by (metis surj_pair)
    show thesis
    proof (cases q)
      case None
      then have "b \<and> st1 = st\<lparr>t_next_host_idx := Suc (t_next_host_idx st), t_world := w\<rparr>"
        using assms(1) False q
        by (simp add: initiate_single_connection_def Let_def skipped_def flip: host_ip_def) auto
      with q None show thesis by (intro drop) auto
    next
      case (Some fd)
      then have "b \<and> st1 = st\<lparr>t_next_host_idx := Suc (t_next_host_idx st), t_world := w1,
           t_probe_table := (t_probe_table st)[?i := \<lparr>active = True,
             dest_ip = host_ip s (t_next_host_idx st), send_time = now, tcp_sock = fd\<rparr>],
           t_active_probes := size_add (t_active_probes st) 1\<rparr>"
        using assms(1) False q clk
        by (simp add: initiate_single_connection_def Let_def skipped_def flip: host_ip_def) auto
      with q Some slot False clk show thesis by (intro conn [where i = ?i and ts = now and fd = fd and slot = ?slot and w = w and ?w1.0 = w1]) auto
    qed
  qed
qed

text \<open>The same with what it does to the descriptors.\<close>

lemma initiate_cases:
  assumes "initiate_single_connection os s st = Inr (b, st1)" and "length (t_probe_table st) < 2 ^ 31"
  obtains (full) "\<not> b" "st1 = st" "\<forall>i<length (t_probe_table st). active (t_probe_table st ! i)"
    | (drop) w where "b" "st1 = st\<lparr>t_next_host_idx := Suc (t_next_host_idx st), t_world := w\<rparr>"
        "led w = led (t_world st)"
    | (conn) w i fd ts where "b"
        "st1 = st\<lparr>t_next_host_idx := Suc (t_next_host_idx st), t_world := w,
           t_probe_table := (t_probe_table st)[i := \<lparr>active = True,
             dest_ip = host_ip s (t_next_host_idx st), send_time = ts, tcp_sock = fd\<rparr>],
           t_active_probes := size_add (t_active_probes st) 1\<rparr>"
        "i < length (t_probe_table st)" "\<not> active (t_probe_table st ! i)"
        "\<not> skipped s (host_ip s (t_next_host_idx st))" "0 \<le> fd"
        "open_fds (led w) = fd # open_fds (led (t_world st))"
        "bad_closes (led w) = bad_closes (led (t_world st))"
proof (rule initiate_split [OF assms], goal_cases Full Skip Drop Conn)
  case Full
  then show ?case by (intro full) auto
next
  case Skip
  then show ?case by (intro drop [of "t_world st"]) auto
next
  case (Drop w slot)
  with connect_socket_led [OF Drop(6)] show ?case by (intro drop [of w]) auto
next
  case (Conn w w1 slot i fd ts)
  with connect_socket_led [OF Conn(9)] on_env_led [OF Conn(10)] show ?case by (intro conn [where w = w1 and i = i and ts = ts and fd = fd]) auto
qed

lemma tried_mono: "tried s st a \<Longrightarrow> t_next_host_idx st \<le> t_next_host_idx st' \<Longrightarrow> tried s st' a"
  unfolding tried_def by (metis less_le_trans)

lemma not_tried_next:
  assumes "scanner_ok s" and "t_next_host_idx st < total_hosts s"
  shows "\<not> tried s st (host_ip s (t_next_host_idx st))"
proof
  assume "tried s st (host_ip s (t_next_host_idx st))"
  then obtain h where "h < t_next_host_idx st" "host_ip s (t_next_host_idx st) = host_ip s h"
    by (auto simp: tried_def)
  with assms show False using host_ip_inj [OF assms(1,2), of h] by simp
qed

lemma initiate_single_connection_inv:
  assumes ok: "scanner_ok s" and inv: "tcp_inv s d0 st" and next_h: "t_next_host_idx st < total_hosts s"
    and run: "initiate_single_connection os s st = Inr (b, st1)"
  shows "tcp_inv s d0 st1"
proof -
  let ?t = "t_probe_table st" and ?n = "t_next_host_idx st"
  let ?a = "host_ip s ?n"
  have small: "length ?t < 2 ^ 31" using inv ok by (simp add: tcp_inv_def scanner_ok_def)
  have cnt: "count (active_of dest_ip ?t + mset (map ip (t_scan_results st))) a \<le> (if tried s st a then 1 else 0)" for a
    using inv by (rule tcp_inv_once)
  have mono: "(if tried s st a then 1 else (0::nat)) \<le> (if tried s st' a then 1 else 0)"
    if "t_next_host_idx st' = Suc ?n" for a st'
    using tried_mono [of s st a st'] that by auto
  show ?thesis
  proof (rule initiate_cases [OF run small], goal_cases full drop conn)
    case full
    with inv show ?thesis by simp
  next
    case (drop w)
    have "count (active_of dest_ip ?t + mset (map ip (t_scan_results st))) a \<le> (if tried s st1 a then 1 else 0)" for a
      using order_trans [OF cnt [of a] mono [of st1 a]] drop(2) by simp
    then have "once_inv s st1" using drop(2) by (simp add: once_inv_def)
    with inv drop next_h show ?thesis
      by (auto simp: tcp_inv_def ledger_inv_def)
  next
    case (conn w i fd ts)
    note conn_eq = conn(2)
    let ?p = "\<lparr>active = True, dest_ip = ?a, send_time = ts, tcp_sock = fd\<rparr>"
    have occ: "active_of f (?t[i := ?p]) = add_mset (f ?p) (active_of f ?t)" for f :: "tcp_probe \<Rightarrow> 'b"
      using conn(3,4) by (intro active_of_occupy) auto
    have fields: "t_probe_table st1 = ?t[i := ?p]" "t_next_host_idx st1 = Suc ?n"
      "t_scan_results st1 = t_scan_results st" "t_world st1 = w" "t_hosts_found st1 = t_hosts_found st"
      "t_reported st1 = t_reported st" "t_active_probes st1 = size_add (t_active_probes st) 1"
      using conn(2) by simp_all
    have c1: "count_active (?t[i := ?p]) = Suc (count_active ?t)"
      using conn(3,4) by (intro count_active_occupy) auto
    have "count_active ?t < 2 ^ 31" using count_active_le [of ?t] small by simp
    then have act: "t_active_probes st1 = count_active (t_probe_table st1)"
      using inv c1 by (simp add: fields tcp_inv_def size_add_def)
    have "tried s st1 ?a" using conn(5) by (auto simp: tried_def fields)
    moreover have "count (active_of dest_ip ?t + mset (map ip (t_scan_results st))) ?a = 0"
      using cnt [of ?a] not_tried_next [OF ok next_h] by simp
    ultimately have "count (active_of dest_ip (t_probe_table st1) + mset (map ip (t_scan_results st1))) a
        \<le> (if tried s st1 a then 1 else 0)" for a
      using cnt [of a] mono [of st1 a] fields(2) occ [of dest_ip] unfolding fields
      by (cases "a = ?a") (auto intro: order_trans)
    then have "once_inv s st1" unfolding once_inv_def by blast
    moreover have "ledger_inv d0 st1"
      using inv conn(6-8) occ [of tcp_sock] by (simp add: tcp_inv_def ledger_inv_def fields)
    ultimately show ?thesis
      using inv act next_h by (simp add: tcp_inv_def fields)
  qed
qed


lemma initiate_connections_inv:
  "scanner_ok s \<Longrightarrow> tcp_inv s d0 st \<Longrightarrow> initiate_connections os s n st = Inr st' \<Longrightarrow> tcp_inv s d0 st'"
proof (induction os s n st rule: initiate_connections.induct)
  case (1 os s n st)
  show ?case
  proof (cases "t_next_host_idx st < total_hosts s \<and> t_active_probes st < max_probes s \<and> n < batch_size s")
    case False
    with 1 show ?thesis by (subst (asm) (2) initiate_connections.simps) simp
  next
    case True
    obtain b st1 where one: "initiate_single_connection os s st = Inr (b, st1)"
      using "1.prems"(3) True by (subst (asm) initiate_connections.simps) (auto split: sum.splits)
    have inv1: "tcp_inv s d0 st1"
      using initiate_single_connection_inv [OF "1.prems"(1,2) _ one] True by simp
    show ?thesis
    proof (cases b)
      case False
      with "1.prems"(3) True one inv1 show ?thesis by (subst (asm) initiate_connections.simps) simp
    next
      case b: True
      then have "initiate_connections os s (if t_next_host_idx st < t_next_host_idx st1 then Suc n else n) st1 = Inr st'"
        using "1.prems"(3) True one by (subst (asm) initiate_connections.simps) simp
      with "1.IH" [OF True one refl] b "1.prems"(1) inv1 show ?thesis by simp
    qed
  qed
qed

section \<open>Closing a probe\<close>

definition drop_probe :: "nat \<Rightarrow> 'w world \<Rightarrow> 'w tcp_state \<Rightarrow> 'w tcp_state" where
  "drop_probe i w st = st\<lparr>
     t_probe_table := (t_probe_table st)[i := (t_probe_table st ! i)\<lparr>active := False\<rparr>],
     t_active_probes := size_sub (t_active_probes st) 1,
     t_world := w\<rparr>"

lemma drop_probe_inv:
  assumes inv: "tcp_inv s d0 st" and i: "i < length (t_probe_table st)" "active (t_probe_table st ! i)"
    and led: "led w = led_step (Close (tcp_sock (t_probe_table st ! i))) 0 (led (t_world st))"
  shows "tcp_inv s d0 (drop_probe i w st)"
    and "dest_ip (t_probe_table st ! i) \<notin> set (map ip (t_scan_results st))"
    and "tried s st (dest_ip (t_probe_table st ! i))"
    and "count (active_of dest_ip (t_probe_table (drop_probe i w st))) (dest_ip (t_probe_table st ! i)) = 0"
proof -
  let ?t = "t_probe_table st" and ?p = "t_probe_table st ! i"
  let ?q = "?p\<lparr>active := False\<rparr>"
  have clr: "active_of f ?t = add_mset (f ?p) (active_of f (?t[i := ?q]))" for f :: "tcp_probe \<Rightarrow> 'b"
    using i by (intro active_of_clear) auto
  have cnt: "count (active_of dest_ip ?t + mset (map ip (t_scan_results st))) a \<le> (if tried s st a then 1 else 0)" for a
    using inv by (rule tcp_inv_once)
  have zero: "count (active_of dest_ip (?t[i := ?q])) (dest_ip ?p) = 0
      \<and> count (mset (map ip (t_scan_results st))) (dest_ip ?p) = 0 \<and> tried s st (dest_ip ?p)"
    using cnt [of "dest_ip ?p"] by (simp add: clr [of dest_ip] split: if_splits)
  then show "dest_ip ?p \<notin> set (map ip (t_scan_results st))" "tried s st (dest_ip ?p)"
    "count (active_of dest_ip (t_probe_table (drop_probe i w st))) (dest_ip ?p) = 0"
    by (metis count_mset_0_iff, simp, simp add: drop_probe_def)
  have le: "count (active_of dest_ip (?t[i := ?q]) + mset (map ip (t_scan_results st))) a \<le> (if tried s st a then 1 else 0)" for a
    using cnt [of a] by (auto simp: clr [of dest_ip] split: if_splits)
  have "tcp_sock ?p \<in> set (open_fds (led (t_world st)))"
  proof -
    have "tcp_sock ?p \<in># mset (open_fds (led (t_world st)))"
      using inv clr [of tcp_sock] by (simp add: tcp_inv_def ledger_inv_def del: set_mset_mset)
    then show ?thesis by simp
  qed
  then have L: "ledger_inv d0 (drop_probe i w st)"
    using inv clr [of tcp_sock] led by (simp add: tcp_inv_def ledger_inv_def drop_probe_def)
  have pos: "0 < count_active ?t" using count_active_pos i by blast
  have c1: "count_active (?t[i := ?q]) = count_active ?t - 1"
    using i by (intro count_active_clear) auto
  have "t_active_probes (drop_probe i w st) = count_active (t_probe_table (drop_probe i w st))"
    using inv pos c1 by (simp add: drop_probe_def tcp_inv_def size_sub_def)
  moreover have T: "tried s (drop_probe i w st) = tried s st" by (auto simp: tried_def drop_probe_def fun_eq_iff)
  have F: "t_probe_table (drop_probe i w st) = ?t[i := ?q]" "t_scan_results (drop_probe i w st) = t_scan_results st"
    "t_next_host_idx (drop_probe i w st) = t_next_host_idx st"
    "t_hosts_found (drop_probe i w st) = t_hosts_found st" "t_reported (drop_probe i w st) = t_reported st"
    by (simp_all add: drop_probe_def)
  moreover have "once_inv s (drop_probe i w st)"
    unfolding once_inv_def T F using le by blast
  moreover have "length (t_probe_table (drop_probe i w st)) = length ?t" by (simp add: drop_probe_def)
  ultimately show "tcp_inv s d0 (drop_probe i w st)"
    using inv L unfolding tcp_inv_def by metis
qed

section \<open>Polling\<close>

lemma tcp_inv_world:
  "tcp_inv s d0 st \<Longrightarrow> led w = led (t_world st) \<Longrightarrow> tcp_inv s d0 (st\<lparr>t_world := w\<rparr>)"
  by (simp add: tcp_inv_def once_inv_def ledger_inv_def tried_def)

lemma report_open_new:
  assumes "dest_ip p \<notin> ip ` set (t_scan_results st)"
  obtains w res where "led w = led (t_world st)" "ip res = dest_ip p" "rtt_ms res = rtt_of d"
    "port res = target_port s"
    "snd (report_open os s p d (buf, st)) = st\<lparr>t_world := w,
       t_reported := (if has_callback s then t_reported st @ [res] else t_reported st),
       t_scan_results := t_scan_results st @ [res], t_hosts_found := Suc (t_hosts_found st)\<rparr>"
proof -
  obtain name w where nm: "(if resolve_dns s then resolve_hostname os (dest_ip p) (t_world st)
      else (''N/A'', t_world st)) = (name, w)" by (metis surj_pair)
  have led: "led w = led (t_world st)"
    using nm by (auto simp: resolve_hostname_def Let_def dest!: led_dests split: if_splits prod.splits)
  define res where "res = \<lparr>ip = dest_ip p, ip_str = format_ip (os_inet_ntop os) (dest_ip p) buf INET_ADDRSTRLEN,
    hostname = name, rtt_ms = rtt_of d, port = target_port s\<rparr>"
  have "\<not> list_ex (\<lambda>q. ip q = dest_ip p) (t_scan_results st)"
    using assms unfolding list_ex_iff image_iff by metis
  then have "snd (report_open os s p d (buf, st)) = st\<lparr>t_world := w,
       t_reported := (if has_callback s then t_reported st @ [res] else t_reported st),
       t_scan_results := t_scan_results st @ [res], t_hosts_found := Suc (t_hosts_found st)\<rparr>"
    unfolding report_open_def Let_def prod.case nm res_def [symmetric] by simp
  then show thesis using led by (intro that [of w res]) (simp_all add: res_def)
qed

text \<open>How the handling of an event ends: nothing; the probe is closed; or it is closed and reported.\<close>

lemma poll_one_cases:
  assumes "poll_one os s ev (buf, st) = Inr (buf', st')" and "tcp_inv s d0 st"
  obtains (none) "st' = st"
    | (miss) i w where "i < length (t_probe_table st)" "active (t_probe_table st ! i)" "st' = drop_probe i w st"
        "led w = led_step (Close (tcp_sock (t_probe_table st ! i))) 0 (led (t_world st))"
    | (hit) i w r where "i < length (t_probe_table st)" "active (t_probe_table st ! i)"
        "led w = led_step (Close (tcp_sock (t_probe_table st ! i))) 0 (led (t_world st))"
        "ip r = dest_ip (t_probe_table st ! i)" "0 \<le> rtt_ms r" "port r = target_port s"
        "st' = (drop_probe i w st)\<lparr>t_reported := (if has_callback s then t_reported st @ [r] else t_reported st),
           t_scan_results := t_scan_results st @ [r], t_hosts_found := Suc (t_hosts_found st)\<rparr>"
proof -
  let ?i = "unat (ep_data ev)"
  let ?p = "t_probe_table st ! ?i"
  show thesis
  proof (cases "?i < length (t_probe_table st) \<and> active ?p")
    case False
    then have "st' = st" using assms(1) by (auto simp: poll_one_def Let_def split: if_splits)
    then show thesis by (rule none)
  next
    case True
    obtain r e v w1 where g: "on_env (os_getsockopt_error os (tcp_sock ?p)) (t_world st) = ((r, e, v), w1)"
      by (metis surj_pair)
    define w3 where "w3 = sys_close os (tcp_sock ?p)
        (snd (sys_call os (Epoll_ctl (epoll_fd s) EPOLL_CTL_DEL (tcp_sock ?p) None) w1))"
    obtain now w4 where c: "on_env (os_clock_gettime os) w3 = (now, w4)" by (metis surj_pair)
    have led: "led w4 = led_step (Close (tcp_sock ?p)) 0 (led (t_world st))"
      using on_env_led [OF g] on_env_led [OF c] by (simp add: w3_def)
    have st1: "st\<lparr>t_probe_table := (t_probe_table st)[?i := ?p\<lparr>active := False\<rparr>],
        t_active_probes := size_sub (t_active_probes st) 1, t_world := w4\<rparr> = drop_probe ?i w4 st"
      by (simp add: drop_probe_def)
    obtain d where d: "diff_ns now (send_time ?p) = Some d"
      using assms(1) True g c by (cases "diff_ns now (send_time ?p)") (simp_all add: poll_one_def w3_def)
    show thesis
    proof (cases "(if r < 0 then e else v) = 0")
      case False
      then have "st' = drop_probe ?i w4 st"
        using assms(1) True g c d by (simp add: poll_one_def Let_def st1 del: One_nat_def flip: w3_def)
      then show thesis using True led by (intro miss) auto
    next
      case err: True
      have nin: "dest_ip ?p \<notin> ip ` set (t_scan_results (drop_probe ?i w4 st))"
        using drop_probe_inv(2) [OF assms(2) _ _ led] True by (simp add: drop_probe_def)
      obtain w5 res where R: "led w5 = led (t_world (drop_probe ?i w4 st))" "ip res = dest_ip ?p"
          "rtt_ms res = rtt_of d" "port res = target_port s"
          "snd (report_open os s ?p d (buf, drop_probe ?i w4 st)) = (drop_probe ?i w4 st)\<lparr>t_world := w5,
             t_reported := (if has_callback s then t_reported (drop_probe ?i w4 st) @ [res] else t_reported (drop_probe ?i w4 st)),
             t_scan_results := t_scan_results (drop_probe ?i w4 st) @ [res],
             t_hosts_found := Suc (t_hosts_found (drop_probe ?i w4 st))\<rparr>"
        by (rule report_open_new [OF nin])
      have "st' = snd (report_open os s ?p d (buf, drop_probe ?i w4 st))"
        using assms(1) True g c d err by (simp add: poll_one_def Let_def st1 del: One_nat_def flip: w3_def)
      then show thesis using True led R by (intro hit [of ?i w5 res]) (auto simp: drop_probe_def rtt_of_nonneg)
    qed
  qed
qed

lemma poll_one_active:
  assumes "i = unat (ep_data ev)" and "i < length (t_probe_table st)" and "p = t_probe_table st ! i" and "active p"
    and "on_env (os_getsockopt_error os (tcp_sock p)) (t_world st) = ((r, e, v), w1)"
    and "on_env (os_clock_gettime os) (sys_close os (tcp_sock p)
      (snd (sys_call os (Epoll_ctl (epoll_fd s) EPOLL_CTL_DEL (tcp_sock p) None) w1))) = (now, w4)"
  shows "poll_one os s ev (buf, st) =
    (case diff_ns now (send_time p) of
       None \<Rightarrow> Inl Signed_overflow
     | Some d \<Rightarrow> if (if r < 0 then e else v) \<noteq> 0 then Inr (buf, drop_probe i w4 st)
         else Inr (report_open os s p d (buf, drop_probe i w4 st)))"
  using assms by (auto simp: poll_one_def drop_probe_def Let_def split: option.split)

lemma poll_one_inv:
  assumes run: "poll_one os s ev (buf, st) = Inr (buf', st')" and inv: "tcp_inv s d0 st"
  shows "tcp_inv s d0 st'"
proof (rule poll_one_cases [OF run inv], goal_cases none miss hit)
  case none
  with inv show ?case by simp
next
  case (miss i w)
  with drop_probe_inv(1) [OF inv] show ?case by simp
next
  case (hit i w r)
  note C = drop_probe_inv [OF inv hit(1-3)]
  let ?c = "drop_probe i w st"
  have F: "t_probe_table st' = t_probe_table ?c" "t_scan_results st' = t_scan_results ?c @ [r]"
    "t_next_host_idx st' = t_next_host_idx ?c" "t_hosts_found st' = Suc (t_hosts_found ?c)"
    "t_reported st' = (if has_callback s then t_reported ?c @ [r] else t_reported ?c)"
    "t_active_probes st' = t_active_probes ?c" "t_world st' = t_world ?c" "t_scan_results ?c = t_scan_results st"
    by (simp_all add: hit(7) drop_probe_def)
  have T: "tried s st' = tried s ?c" "tried s ?c = tried s st"
    by (auto simp: tried_def F drop_probe_def fun_eq_iff)
  have "count (mset (map ip (t_scan_results st))) (ip r) = 0"
    using C(2) hit(4) by (metis count_mset_0_iff)
  then have "count (active_of dest_ip (t_probe_table st') + mset (map ip (t_scan_results st'))) a
      \<le> (if tried s st' a then 1 else 0)" for a
    using tcp_inv_once [OF C(1), of a] C(3,4) hit(4) unfolding T F by (cases "a = ip r") simp_all
  then have "once_inv s st'" unfolding once_inv_def by blast
  moreover have "ledger_inv d0 st'" using C(1) by (simp add: tcp_inv_def ledger_inv_def F)
  ultimately show ?case
    using C(1) hit(5,6) by (simp add: tcp_inv_def F(1-7)) 
qed

lemma poll_all_inv:
  "poll_all os s evs (buf, st) = Inr (buf', st') \<Longrightarrow> tcp_inv s d0 st \<Longrightarrow> tcp_inv s d0 st'"
proof (induction evs arbitrary: buf st)
  case (Cons ev evs)
  then obtain buf1 st1 where "poll_one os s ev (buf, st) = Inr (buf1, st1)"
    and "poll_all os s evs (buf1, st1) = Inr (buf', st')" by (auto split: sum.splits)
  with Cons show ?case using poll_one_inv by blast
qed simp

lemma poll_connections_inv:
  assumes inv: "tcp_inv s d0 st" and run: "poll_connections os s st = Inr st'"
  shows "tcp_inv s d0 st'"
proof -
  obtain c e evs w where
    call: "on_env (os_epoll_wait os (epoll_fd s) (nat (cast_int (batch_size s))) EPOLL_TIMEOUT_MS) (t_world st) = ((c, e, evs), w)"
    by (metis surj_pair)
  have inv1: "tcp_inv s d0 (st\<lparr>t_world := w\<rparr>)" by (rule tcp_inv_world [OF inv on_env_led [OF call]])
  obtain buf' where "poll_all os s (take (nat c) evs) ([], st\<lparr>t_world := w\<rparr>) = Inr (buf', st')"
    using run call by (auto simp: poll_connections_def Let_def split: if_splits sum.splits)
  with inv1 show ?thesis by (blast intro: poll_all_inv)
qed

section \<open>The sweep\<close>

lemma tcp_reap_slot_inv:
  assumes inv: "tcp_inv s d0 st" and i: "i < length (t_probe_table st)"
    and run: "tcp_reap_slot os s now i st = Inr st'"
  shows "tcp_inv s d0 st'" and "length (t_probe_table st') = length (t_probe_table st)"
proof -
  let ?p = "t_probe_table st ! i"
  let ?w = "sys_close os (tcp_sock ?p)
      (snd (sys_call os (Epoll_ctl (epoll_fd s) EPOLL_CTL_DEL (tcp_sock ?p) None) (t_world st)))"
  have "st' = st \<or> active ?p \<and> st' = drop_probe i ?w st"
    using run by (auto simp: tcp_reap_slot_def Let_def drop_probe_def split: if_splits option.splits)
  moreover have "tcp_inv s d0 (drop_probe i ?w st)" if "active ?p"
    by (rule drop_probe_inv(1) [OF inv i that]) simp
  ultimately show "tcp_inv s d0 st'" "length (t_probe_table st') = length (t_probe_table st)"
    using inv by (auto simp: drop_probe_def)
qed

lemma tcp_reap_slots_inv:
  "tcp_reap_slots os s now is st = Inr st' \<Longrightarrow> tcp_inv s d0 st \<Longrightarrow>
    set is \<subseteq> {..<length (t_probe_table st)} \<Longrightarrow> tcp_inv s d0 st'"
proof (induction "is" arbitrary: st)
  case (Cons i rest)
  then obtain st1 where one: "tcp_reap_slot os s now i st = Inr st1"
    and rest: "tcp_reap_slots os s now rest st1 = Inr st'" by (auto split: sum.splits)
  have i: "i < length (t_probe_table st)" using Cons.prems by simp
  note one' = tcp_reap_slot_inv [OF Cons.prems(2) i one]
  show ?case using Cons.IH [OF rest one'(1)] Cons.prems(3) one'(2) by simp
qed simp

lemma tcp_reap_inv:
  assumes inv: "tcp_inv s d0 st" and run: "tcp_reap_timed_out_probes os s st = Inr st'"
  shows "tcp_inv s d0 st'"
proof -
  obtain now w where clk: "on_env (os_clock_gettime os) (t_world st) = (now, w)" by (metis surj_pair)
  have inv1: "tcp_inv s d0 (st\<lparr>t_world := w\<rparr>)" by (rule tcp_inv_world [OF inv on_env_led [OF clk]])
  have "tcp_reap_slots os s now [0..<length (t_probe_table st)] (st\<lparr>t_world := w\<rparr>) = Inr st'"
    using run clk by (simp add: tcp_reap_timed_out_probes_def)
  then show ?thesis by (rule tcp_reap_slots_inv [OF _ inv1]) auto
qed

section \<open>The run\<close>

definition tcp_done :: "tcp_scanner \<Rightarrow> descriptors \<Rightarrow> 'w tcp_state \<Rightarrow> bool" where
  "tcp_done s d0 st \<longleftrightarrow> tcp_inv s d0 st \<and> t_next_host_idx st = total_hosts s \<and> t_active_probes st = 0"

lemma tcp_run_loop_inv:
  assumes "tcp_run_loop os s st = Some r" and "scanner_ok s" and "tcp_inv s d0 st"
  shows "on_return (tcp_done s d0) r"
  using assms
proof (induction os s st r rule: tcp_run_loop.raw_induct [rotated, consumes 1, case_names step])
  case (step f os s st r)
  show ?case
  proof (cases "t_next_host_idx st < total_hosts s \<or> t_active_probes st > 0")
    case False
    with step show ?thesis by (auto simp: tcp_done_def tcp_inv_def)
  next
    case True
    then have "seq (Some (initiate_connections os s 0 st)) (\<lambda>st1.
        seq (Some (poll_connections os s st1)) (\<lambda>st2.
          seq (Some (tcp_reap_timed_out_probes os s st2)) (\<lambda>st3. f os s st3))) = Some r"
      using step.hyps by simp
    note go = this
    show ?thesis
    proof (cases "initiate_connections os s 0 st")
      case (Inl e)
      with go show ?thesis by auto
    next
      case st1: (Inr st1)
      show ?thesis
      proof (cases "poll_connections os s st1")
        case (Inl e)
        with go st1 show ?thesis by auto
      next
        case st2: (Inr st2)
        show ?thesis
        proof (cases "tcp_reap_timed_out_probes os s st2")
          case (Inl e)
          with go st1 st2 show ?thesis by auto
        next
          case st3: (Inr st3)
          have "tcp_inv s d0 st3"
            by (rule tcp_reap_inv [OF poll_connections_inv [OF initiate_connections_inv [OF step.prems st1] st2] st3])
          moreover have "f os s st3 = Some r" using go st1 st2 st3 by simp
          ultimately show ?thesis using step.prems(1) by (intro step.IH)
        qed
      qed
    qed
  qed
qed

text \<open>Without slots, or with batches of no connections, the loop never comes to its end.\<close>

lemma poll_all_next:
  "poll_all os s evs (buf, st) = Inr (buf', st') \<Longrightarrow> tcp_inv s d0 st \<Longrightarrow>
    t_next_host_idx st' = t_next_host_idx st"
proof (induction evs arbitrary: buf st)
  case (Cons ev evs)
  then obtain buf1 st1 where one: "poll_one os s ev (buf, st) = Inr (buf1, st1)"
    and rest: "poll_all os s evs (buf1, st1) = Inr (buf', st')" by (auto split: sum.splits)
  have "t_next_host_idx st1 = t_next_host_idx st"
    by (rule poll_one_cases [OF one Cons.prems(2)]) (simp_all add: drop_probe_def)
  with Cons.IH [OF rest poll_one_inv [OF one Cons.prems(2)]] show ?case by simp
qed simp

lemma tcp_reap_next:
  "tcp_reap_slots os s now is st = Inr st' \<Longrightarrow> t_next_host_idx st' = t_next_host_idx st"
proof (induction "is" arbitrary: st)
  case (Cons i rest)
  then obtain st1 where "tcp_reap_slot os s now i st = Inr st1"
    and "tcp_reap_slots os s now rest st1 = Inr st'" by (auto split: sum.splits)
  then show ?case using Cons.IH
    by (auto simp: tcp_reap_slot_def Let_def split: if_splits option.splits)
qed simp

lemma tcp_run_loop_stuck:
  assumes "tcp_run_loop os s st = Some r" and "tcp_inv s d0 st"
    and "max_probes s = 0 \<or> batch_size s = 0" and "t_next_host_idx st < total_hosts s"
  shows "\<exists>f. r = Inl f"
  using assms
proof (induction os s st r rule: tcp_run_loop.raw_induct [rotated, consumes 1, case_names step])
  case (step f os s st r)
  have st1: "initiate_connections os s 0 st = Inr st"
    using step.prems(2) by (subst initiate_connections.simps) auto
  have go: "seq (Some (poll_connections os s st)) (\<lambda>st2.
      seq (Some (tcp_reap_timed_out_probes os s st2)) (\<lambda>st3. f os s st3)) = Some r"
    using step.hyps step.prems(3) st1 by simp
  show ?case
  proof (cases "poll_connections os s st")
    case (Inl e)
    with go show ?thesis by auto
  next
    case st2: (Inr st2)
    have "t_next_host_idx st2 = t_next_host_idx st"
    proof -
      obtain c e evs w where
        call: "on_env (os_epoll_wait os (epoll_fd s) (nat (cast_int (batch_size s))) EPOLL_TIMEOUT_MS) (t_world st) = ((c, e, evs), w)"
        by (metis surj_pair)
      have inv1: "tcp_inv s d0 (st\<lparr>t_world := w\<rparr>)" by (rule tcp_inv_world [OF step.prems(1) on_env_led [OF call]])
      obtain buf' where "poll_all os s (take (nat c) evs) ([], st\<lparr>t_world := w\<rparr>) = Inr (buf', st2)"
        using st2 call by (auto simp: poll_connections_def Let_def split: if_splits sum.splits)
      from poll_all_next [OF this inv1] show ?thesis by simp
    qed
    moreover have inv2: "tcp_inv s d0 st2" by (rule poll_connections_inv [OF step.prems(1) st2])
    moreover show ?thesis
    proof (cases "tcp_reap_timed_out_probes os s st2")
      case (Inl e)
      with go st2 show ?thesis by auto
    next
      case st3: (Inr st3)
      then have "t_next_host_idx st3 = t_next_host_idx st2"
        by (auto simp: tcp_reap_timed_out_probes_def split: prod.splits dest: tcp_reap_next)
      moreover have "tcp_inv s d0 st3" by (rule tcp_reap_inv [OF inv2 st3])
      moreover have "f os s st3 = Some r" using go st2 st3 by simp
      ultimately show ?thesis using step.IH step.prems(2,3) \<open>t_next_host_idx st2 = t_next_host_idx st\<close> by metis
    qed
  qed
qed


section \<open>From construction to destruction\<close>

definition tcp_config_ok :: "TcpScannerConfig \<Rightarrow> bool" where
  "tcp_config_ok c \<longleftrightarrow> unat (tcfg_base_ip c) + tcfg_total_hosts c \<le> 2 ^ 32 \<and>
     tcfg_total_hosts c \<le> 2 ^ 31 \<and> tcfg_max_probes c < 2 ^ 31"

lemma TcpScanner_new_cases:
  assumes "TcpScanner_new os config w = (r, w')" and "tcp_config_ok config"
  shows "case r of
      Inl f \<Rightarrow> led w' = led w
    | Inr (s, st) \<Rightarrow> scanner_ok s \<and> tcp_inv s (led w') st \<and> t_world st = w' \<and> t_next_host_idx st = 0 \<and>
        count_active (t_probe_table st) = 0 \<and> base_ip s = tcfg_base_ip config \<and>
        total_hosts s = tcfg_total_hosts config \<and> target_port s = tcfg_target_port config \<and>
        has_callback s = tcfg_result_callback config \<and>
        0 \<le> epoll_fd s \<and> open_fds (led w') = epoll_fd s # open_fds (led w) \<and>
        bad_closes (led w') = bad_closes (led w)"
proof -
  obtain ni w1 where f: "fetch os (tcfg_base_ip config) (word_of_nat (tcfg_total_hosts config)) w = (ni, w1)"
    by (metis surj_pair)
  obtain ep e w2 where c: "sys_call os Epoll_create1 w1 = ((ep, e), w2)" by (metis surj_pair)
  have led: "led w2 = (if ep < 0 then led w else (led w)\<lparr>open_fds := ep # open_fds (led w)\<rparr>)"
    using sys_call_led [OF c] fetch_led [OF f] by simp
  define s where "s = (tcp_members config ni)\<lparr>epoll_fd := ep\<rparr>"
  define st :: "'a tcp_state" where "st = \<lparr>t_probe_table = replicate (max_probes s) TcpProbe_init,
      t_next_host_idx = 0, t_active_probes = 0, t_hosts_found = 0, t_scan_results = [], t_reported = [], t_world = w2\<rparr>"
  have none: "count_active (t_probe_table st) = 0" by (simp add: st_def count_active_def TcpProbe_init_def)
  have inv: "tcp_inv s (led w2) st"
    using none
    by (simp add: tcp_inv_def once_inv_def ledger_inv_def active_of_none) (simp add: st_def)
  have ok: "scanner_ok s"
    using assms(2) by (auto simp: tcp_config_ok_def scanner_ok_def tcp_members_def s_def)
  have "max_probes s = max_probes (tcp_members config ni)" by (simp add: s_def)
  then have rw: "w' = w2 \<and> (if ep < 0 then r = Inl (System_error e ''epoll_create1'') else r = Inr (s, st))"
    using assms(1) by (auto simp: TcpScanner_new_def f c Let_def s_def st_def)
  show ?thesis
  proof (cases "ep < 0")
    case True
    with rw led show ?thesis by simp
  next
    case False
    moreover have "base_ip s = tcfg_base_ip config" "total_hosts s = tcfg_total_hosts config"
      "target_port s = tcfg_target_port config" "has_callback s = tcfg_result_callback config" "epoll_fd s = ep" "t_world st = w2" "t_next_host_idx st = 0"
      by (simp_all add: s_def st_def tcp_members_def)
    ultimately show ?thesis using rw led ok inv none by simp
  qed
qed

lemma delete_fold:
  "mset (open_fds (led w)) = fds + active_of tcp_sock ps \<Longrightarrow> \<forall>fd\<in>#active_of tcp_sock ps. 0 \<le> fd \<Longrightarrow>
    mset (open_fds (led (fold (\<lambda>p w. if active p \<and> tcp_sock p \<ge> 0 then sys_close os (tcp_sock p) w else w) ps w))) = fds \<and>
    bad_closes (led (fold (\<lambda>p w. if active p \<and> tcp_sock p \<ge> 0 then sys_close os (tcp_sock p) w else w) ps w))
      = bad_closes (led w)"
proof (induction ps arbitrary: w)
  case Nil
  then show ?case by (simp add: active_of_def)
next
  case (Cons p ps)
  show ?case
  proof (cases "active p")
    case False
    with Cons show ?thesis by (simp add: active_of_def)
  next
    case True
    then have m: "mset (open_fds (led w)) = add_mset (tcp_sock p) (fds + active_of tcp_sock ps)" "0 \<le> tcp_sock p"
      using Cons.prems by (simp_all add: active_of_def)
    then have "tcp_sock p \<in> set (open_fds (led w))"
      by (metis set_mset_mset union_single_eq_member)
    with m Cons.IH [of "sys_close os (tcp_sock p) w"] Cons.prems(2) True show ?thesis
      by (simp add: active_of_def)
  qed
qed

text \<open>The destructor closes every socket a probe still owns, and the epoll descriptor.\<close>

lemma TcpScanner_delete_led:
  assumes inv: "ledger_inv d0 st" and d0: "open_fds d0 = epoll_fd s # fds" "0 \<le> epoll_fd s"
  shows "mset (open_fds (led (TcpScanner_delete os s st))) = mset fds"
    and "bad_closes (led (TcpScanner_delete os s st)) = bad_closes d0"
proof -
  define w1 where "w1 = fold (\<lambda>p w. if active p \<and> tcp_sock p \<ge> 0 then sys_close os (tcp_sock p) w else w)
      (t_probe_table st) (t_world st)"
  have "mset (open_fds (led w1)) = mset (open_fds d0)" "bad_closes (led w1) = bad_closes d0"
    using delete_fold [of "t_world st" "mset (open_fds d0)" "t_probe_table st" os] inv
    by (simp_all add: ledger_inv_def w1_def)
  moreover from this have "epoll_fd s \<in> set (open_fds (led w1))"
    using d0 by (metis list.set_intros(1) set_mset_mset)
  ultimately show "mset (open_fds (led (TcpScanner_delete os s st))) = mset fds"
    "bad_closes (led (TcpScanner_delete os s st)) = bad_closes d0"
    using d0 by (simp_all add: TcpScanner_delete_def flip: w1_def)
qed

text \<open>The block of \<^verbatim>\<open>execute_network_scan\<close> that scans, between and around its two clock readings.\<close>

definition tcp_session ::
    "'w os \<Rightarrow> TcpScannerConfig \<Rightarrow> 'w world
      \<Rightarrow> ((TcpHostResult list \<times> TcpHostResult list \<times> timespec \<times> timespec) \<times> 'w world) outcome" where
  "tcp_session os config w =
     (let (scan_start_time, w0) = on_env (os_clock_gettime os) w in
      case TcpScanner_new os config w0 of
        (Inl e, w1) \<Rightarrow> Some (Inl e)
      | (Inr (s, st), w1) \<Rightarrow> seq (tcp_run os s st) (\<lambda>(results, st1).
          let (scan_end_time, w2) = on_env (os_clock_gettime os) (t_world st1)
          in Some (Inr ((results, t_reported st1, scan_start_time, scan_end_time),
                        TcpScanner_delete os s (st1\<lparr>t_world := w2\<rparr>)))))"

lemma tcp_start_inv:
  "tcp_inv s d0 st \<Longrightarrow> count_active (t_probe_table st) = 0 \<Longrightarrow>
    tcp_inv s d0 (st\<lparr>t_next_host_idx := 0, t_active_probes := 0, t_hosts_found := 0,
      t_scan_results := [], t_reported := []\<rparr>)"
  by (simp add: tcp_inv_def ledger_inv_def once_inv_def active_of_none)

lemma tcp_run_done:
  assumes "scanner_ok s" and "tcp_inv s d0 st" and "count_active (t_probe_table st) = 0"
    and "tcp_run os s st = Some r"
  shows "on_return (\<lambda>(rs, st'). rs = t_scan_results st' \<and> tcp_done s d0 st') r"
proof -
  let ?st = "st\<lparr>t_next_host_idx := 0, t_active_probes := 0, t_hosts_found := 0,
            t_scan_results := [], t_reported := []\<rparr>"
  have "tcp_inv s d0 ?st" using assms(2,3) by (rule tcp_start_inv)
  then have l: "on_return (tcp_done s d0) q" if "tcp_run_loop os s ?st = Some q" for q
    using that by (rule tcp_run_loop_inv [OF _ assms(1), rotated])
  have "seq (tcp_run_loop os s ?st) (\<lambda>st1. Some (Inr (t_scan_results st1, st1))) = Some r"
    using assms(4) by (simp add: tcp_run_def)
  then show ?thesis by (rule on_return_seq [where P = "tcp_done s d0"]) (use l in auto)
qed

lemma tcp_session_spec:
  fixes os :: "'w os"
  assumes "tcp_config_ok config" and "tcp_session os config w = Some (Inr ((rs, shown, t0, t1), w'))"
  obtains s and st' :: "'w tcp_state" where "rs = t_scan_results st'" "scanner_ok s"
    "base_ip s = tcfg_base_ip config" "total_hosts s = tcfg_total_hosts config"
    "target_port s = tcfg_target_port config" "tcp_done s (led (t_world st')) st'"
    "mset (open_fds (led w')) = mset (open_fds (led w))" "bad_closes (led w') = bad_closes (led w)"
    "shown = (if tcfg_result_callback config then rs else [])"
proof -
  obtain c w0 where c: "on_env (os_clock_gettime os) w = (c, w0)" by (metis surj_pair)
  obtain q w1 where new: "TcpScanner_new os config w0 = (q, w1)" by (metis surj_pair)
  then obtain s st where q: "q = Inr (s, st)"
    using assms(2) c by (cases q) (auto simp: tcp_session_def)
  note N = TcpScanner_new_cases [OF new assms(1), unfolded q sum.case prod.case]
  from assms(2) new q c obtain st' e w2 where go: "tcp_run os s st = Some (Inr (rs, st'))"
    and e: "on_env (os_clock_gettime os) (t_world st') = (e, w2)"
    and w': "w' = TcpScanner_delete os s (st'\<lparr>t_world := w2\<rparr>)" and shown: "shown = t_reported st'"
    by (auto simp: tcp_session_def elim!: seq_InrE split: prod.splits)
  have R: "rs = t_scan_results st'" "tcp_done s (led w1) st'"
    using tcp_run_done [OF _ _ _ go, of "led w1"] N by auto
  have led: "ledger_inv (led w1) st'" using R(2) by (simp add: tcp_done_def tcp_inv_def)
  then have led2: "ledger_inv (led w1) (st'\<lparr>t_world := w2\<rparr>)"
    using on_env_led [OF e] by (simp add: ledger_inv_def)
  have "count_active (t_probe_table st') = 0" using R(2) by (simp add: tcp_done_def tcp_inv_def)
  then have "tcp_done s (led (t_world st')) st'"
    using R(2) by (simp add: tcp_done_def tcp_inv_def ledger_inv_def active_of_none)
  moreover have "mset (open_fds (led w')) = mset (open_fds (led w))" "bad_closes (led w') = bad_closes (led w)"
    using TcpScanner_delete_led [OF led2, of s "open_fds (led w)" os] N on_env_led [OF c] by (simp_all add: w')
  moreover have "shown = (if tcfg_result_callback config then rs else [])"
    using R N by (simp add: shown tcp_done_def tcp_inv_def)
  ultimately show thesis using R(1) N by (intro that [of st' s]) auto
qed

section \<open>The operations in any order\<close>

lemma tried_in_range: "tried s st a \<Longrightarrow> scanner_ok s \<Longrightarrow> t_next_host_idx st \<le> total_hosts s \<Longrightarrow> in_range s a"
  by (auto simp: tried_def intro: host_ip_in_range)

inductive tcp_step :: "'w os \<Rightarrow> tcp_scanner \<Rightarrow> 'w tcp_state \<Rightarrow> 'w tcp_state \<Rightarrow> bool" for os s where
  initiate: "initiate_connections os s 0 st = Inr st' \<Longrightarrow> tcp_step os s st st'"
| poll: "poll_connections os s st = Inr st' \<Longrightarrow> tcp_step os s st st'"
| reap: "tcp_reap_timed_out_probes os s st = Inr st' \<Longrightarrow> tcp_step os s st st'"

lemma tcp_step_inv: "tcp_step os s st st' \<Longrightarrow> scanner_ok s \<Longrightarrow> tcp_inv s d0 st \<Longrightarrow> tcp_inv s d0 st'"
  by (induction rule: tcp_step.induct) (auto intro: initiate_connections_inv poll_connections_inv tcp_reap_inv)

lemma tcp_steps_inv: "(tcp_step os s)\<^sup>*\<^sup>* st st' \<Longrightarrow> scanner_ok s \<Longrightarrow> tcp_inv s d0 st \<Longrightarrow> tcp_inv s d0 st'"
  by (induction rule: rtranclp_induct) (auto intro: tcp_step_inv)

section \<open>Reaping without overflow\<close>

lemma mset_filter_split: "mset xs = mset (filter (\<lambda>x. \<not> P x) xs) + mset (filter P xs)"
  by (induction xs) auto

definition expire :: "tcp_scanner \<Rightarrow> timespec \<Rightarrow> tcp_probe \<Rightarrow> tcp_probe" where
  "expire s now p =
     (if active p \<and> timeout_ns (timeout_ms s) < ns_of now - ns_of (send_time p) then p\<lparr>active := False\<rparr> else p)"

lemma filter_active_expire:
  "filter active (map (expire s now) t) =
    filter (\<lambda>p. ns_of now - ns_of (send_time p) \<le> timeout_ns (timeout_ms s)) (filter active t)"
  by (induction t) (auto simp: expire_def)

lemma expire_idem [simp]: "expire s now (expire s now p) = expire s now p"
  by (simp add: expire_def)

lemma tcp_reap_slot_expire:
  assumes "tcp_reap_slot os s now i st = Inr st'"
  shows "t_probe_table st' = (t_probe_table st)[i := expire s now (t_probe_table st ! i)]"
    and "t_scan_results st' = t_scan_results st" and "t_next_host_idx st' = t_next_host_idx st"
  using assms by (auto simp: tcp_reap_slot_def expire_def Let_def dest!: diff_ns_SomeD split: if_splits option.splits)

lemma tcp_reap_slots_expire:
  "tcp_reap_slots os s now is st = Inr st' \<Longrightarrow> set is \<subseteq> {..<length (t_probe_table st)} \<Longrightarrow>
    length (t_probe_table st') = length (t_probe_table st) \<and>
    (\<forall>i<length (t_probe_table st). t_probe_table st' ! i =
       (if i \<in> set is then expire s now (t_probe_table st ! i) else t_probe_table st ! i)) \<and>
    t_scan_results st' = t_scan_results st \<and> t_next_host_idx st' = t_next_host_idx st"
proof (induction "is" arbitrary: st)
  case (Cons i rest)
  then obtain st1 where "tcp_reap_slot os s now i st = Inr st1" and rest: "tcp_reap_slots os s now rest st1 = Inr st'"
    by (auto split: sum.splits)
  note st1 = tcp_reap_slot_expire [OF this(1)]
  from Cons.IH [OF rest] Cons.prems(2) st1 show ?case by (auto simp: nth_list_update)
qed simp

lemma tcp_reap_slots_total:
  assumes "clock_ok now"
  shows "\<forall>p\<in>set (t_probe_table st). active p \<longrightarrow> clock_ok (send_time p) \<Longrightarrow>
    set is \<subseteq> {..<length (t_probe_table st)} \<Longrightarrow> \<exists>st'. tcp_reap_slots os s now is st = Inr st'"
proof (induction "is" arbitrary: st)
  case (Cons i rest)
  then have i: "t_probe_table st ! i \<in> set (t_probe_table st)" by simp
  then have "active (t_probe_table st ! i) \<Longrightarrow>
      diff_ns now (send_time (t_probe_table st ! i)) = Some (ns_of now - ns_of (send_time (t_probe_table st ! i)))"
    using Cons.prems(1) by (intro diff_ns_exact [OF assms]) simp
  then have "\<exists>st1. tcp_reap_slot os s now i st = Inr st1"
    by (cases "active (t_probe_table st ! i)") (simp_all add: tcp_reap_slot_def Let_def)
  then obtain st1 where st1: "tcp_reap_slot os s now i st = Inr st1" ..
  have "\<forall>p\<in>set (t_probe_table st1). active p \<longrightarrow> clock_ok (send_time p)"
  proof
    fix p assume "p \<in> set (t_probe_table st1)"
    then have "p \<in> set (t_probe_table st) \<or> p = expire s now (t_probe_table st ! i)"
      using set_update_subset_insert [of "t_probe_table st" i] by (auto simp: tcp_reap_slot_expire(1) [OF st1])
    then show "active p \<longrightarrow> clock_ok (send_time p)" using Cons.prems(1) i by (auto simp: expire_def)
  qed
  then have "\<exists>st'. tcp_reap_slots os s now rest st1 = Inr st'"
    using Cons.prems(2) by (intro Cons.IH) (auto simp: tcp_reap_slot_expire(1) [OF st1])
  with st1 show ?case by auto
qed simp

lemma tcp_reap_table:
  assumes "tcp_reap_slots os s now [0..<length (t_probe_table st)] st = Inr st'"
  shows "t_probe_table st' = map (expire s now) (t_probe_table st)"
    and "t_scan_results st' = t_scan_results st" and "t_next_host_idx st' = t_next_host_idx st"
  using tcp_reap_slots_expire [OF assms] by (auto simp: atLeast0LessThan intro!: nth_equalityI)

lemma tcp_reap_expire:
  assumes "on_env (os_clock_gettime os) (t_world st) = (now, w)" and "clock_ok now"
    and "\<forall>p\<in>set (t_probe_table st). active p \<longrightarrow> clock_ok (send_time p)"
  obtains st' where "tcp_reap_timed_out_probes os s st = Inr st'"
    "t_probe_table st' = map (expire s now) (t_probe_table st)"
    "t_scan_results st' = t_scan_results st" "t_next_host_idx st' = t_next_host_idx st"
proof -
  obtain st' where st': "tcp_reap_slots os s now [0..<length (t_probe_table st)] (st\<lparr>t_world := w\<rparr>) = Inr st'"
    using tcp_reap_slots_total [OF assms(2), of "st\<lparr>t_world := w\<rparr>" "[0..<length (t_probe_table st)]" os s] assms(3)
    by (auto simp: atLeast0LessThan)
  then have "tcp_reap_timed_out_probes os s st = Inr st'"
    using assms(1) by (simp add: tcp_reap_timed_out_probes_def)
  with tcp_reap_table [of os s now "st\<lparr>t_world := w\<rparr>" st'] st' show thesis by (intro that [of st']) simp_all
qed

section \<open>Faults\<close>

text \<open>The faults of the operations.\<close>

lemma initiate_connections_fault:
  "initiate_connections os s n st = Inl f \<Longrightarrow> f = Signed_overflow \<and> tcp_buf_size s = None"
proof (induction os s n st rule: initiate_connections.induct)
  case (1 os s n st)
  have one: "f = Signed_overflow \<and> tcp_buf_size s = None" if "initiate_single_connection os s st = Inl f"
    using that by (auto simp: initiate_single_connection_def connect_socket_def Let_def
        split: if_splits prod.splits option.splits sum.splits)
  show ?case
    using "1.prems" "1.IH" one
    by (subst (asm) initiate_connections.simps) (auto split: if_splits sum.splits bool.splits)
qed

lemma poll_all_fault: "poll_all os s evs bs = Inl f \<Longrightarrow> f = Signed_overflow"
proof (induction evs arbitrary: bs)
  case (Cons ev evs)
  have "f = Signed_overflow" if "poll_one os s ev bs = Inl f"
    using that by (auto simp: poll_one_def Let_def split: prod.splits if_splits option.splits)
  with Cons show ?case by (auto split: sum.splits)
qed simp

lemma poll_connections_fault:
  "poll_connections os s st = Inl f \<Longrightarrow> f = Signed_overflow \<or> f = Length_error \<and> 2 ^ 31 \<le> batch_size s"
  by (cases "batch_size s < 2 ^ 31")
    (auto simp: poll_connections_def Let_def split: prod.splits if_splits sum.splits dest: poll_all_fault)

lemma tcp_reap_fault: "tcp_reap_timed_out_probes os s st = Inl f \<Longrightarrow> f = Signed_overflow"
proof -
  have "tcp_reap_slots os s now is st = Inl f \<Longrightarrow> f = Signed_overflow" for now "is" st
    by (induction "is" arbitrary: st)
      (auto simp: tcp_reap_slot_def Let_def split: if_splits option.splits sum.splits)
  then show "tcp_reap_timed_out_probes os s st = Inl f \<Longrightarrow> f = Signed_overflow"
    by (auto simp: tcp_reap_timed_out_probes_def split: prod.splits)
qed

lemma tcp_run_loop_fault:
  assumes "tcp_run_loop os s st = Some r" and "r = Inl f"
  shows "f = Signed_overflow \<or> f = Length_error \<and> 2 ^ 31 \<le> batch_size s"
  using assms
proof (induction os s st r rule: tcp_run_loop.raw_induct [rotated, consumes 1, case_names step])
  case (step g os s st r)
  show ?case
  proof (cases "t_next_host_idx st < total_hosts s \<or> t_active_probes st > 0")
    case False
    with step show ?thesis by simp
  next
    case True
    then have go: "seq (Some (initiate_connections os s 0 st)) (\<lambda>st1.
        seq (Some (poll_connections os s st1)) (\<lambda>st2.
          seq (Some (tcp_reap_timed_out_probes os s st2)) (\<lambda>st3. g os s st3))) = Some (Inl f)"
      using step.hyps step.prems by simp
    then show ?thesis
      using step.IH step.prems
      by (auto simp: seq_def split: sum.splits
          dest: initiate_connections_fault poll_connections_fault tcp_reap_fault)
  qed
qed

end
