(* ===== verification/Arp_Table.thy ===== *)
theory Arp_Table
  imports Utils
begin

text \<open>
  \<^verbatim>\<open>src/arp_table.cpp\<close>: the neighbour table, read from the kernel over a netlink socket. The
  receive buffer is a list of bytes; the \<^verbatim>\<open>NLMSG_\<close> and \<^verbatim>\<open>RTA_\<close> macros of \<^verbatim>\<open><linux/netlink.h>\<close> and
  \<^verbatim>\<open><linux/rtnetlink.h>\<close> are written out on it, in the 32-bit unsigned arithmetic they are used
  with here, and a pointer is an offset. A read outside the buffer is \<open>Out_of_bounds\<close>.
\<close>

section \<open>Data\<close>

record ArpEntry =
  arp_ip :: u32
  mac_address :: string
  interface_index :: int
  iface_name :: string

definition NLMSG_ERROR :: u16 where "NLMSG_ERROR = 2"
definition NLMSG_DONE :: u16 where "NLMSG_DONE = 3"
definition RTM_NEWNEIGH :: u16 where "RTM_NEWNEIGH = 28"
definition RTM_GETNEIGH :: u16 where "RTM_GETNEIGH = 30"
definition NLM_F_REQUEST :: u16 where "NLM_F_REQUEST = 0x1"
definition NLM_F_DUMP :: u16 where "NLM_F_DUMP = 0x300"
definition NDA_DST :: u16 where "NDA_DST = 1"
definition NDA_LLADDR :: u16 where "NDA_LLADDR = 2"
definition NUD_INCOMPLETE :: u16 where "NUD_INCOMPLETE = 0x01"
definition AF_INET_u8 :: u8 where "AF_INET_u8 = 2"
definition sizeof_nlmsghdr :: nat where "sizeof_nlmsghdr = 16"
definition sizeof_ndmsg :: nat where "sizeof_ndmsg = 12"
definition sizeof_rtattr :: nat where "sizeof_rtattr = 4"
definition rx_buf_size :: nat where "rx_buf_size = 65536"

section \<open>Reading the buffer\<close>

definition rd_u8 :: "u8 list \<Rightarrow> nat \<Rightarrow> fault + u8" where
  "rd_u8 buf off = (case read_bytes buf off 1 of None \<Rightarrow> Inl Out_of_bounds | Some b \<Rightarrow> Inr (get_u8 b))"

definition rd_u16 :: "u8 list \<Rightarrow> nat \<Rightarrow> fault + u16" where
  "rd_u16 buf off = (case read_bytes buf off 2 of None \<Rightarrow> Inl Out_of_bounds | Some b \<Rightarrow> Inr (get_u16 b))"

definition rd_u32 :: "u8 list \<Rightarrow> nat \<Rightarrow> fault + u32" where
  "rd_u32 buf off = (case read_bytes buf off 4 of None \<Rightarrow> Inl Out_of_bounds | Some b \<Rightarrow> Inr (get_u32 b))"

definition rd_bytes :: "u8 list \<Rightarrow> nat \<Rightarrow> nat \<Rightarrow> fault + u8 list" where
  "rd_bytes buf off n = (case read_bytes buf off n of None \<Rightarrow> Inl Out_of_bounds | Some b \<Rightarrow> Inr b)"

text \<open>Sequencing of calls that return or fault.\<close>

definition bindf :: "fault + 'a \<Rightarrow> ('a \<Rightarrow> fault + 'b) \<Rightarrow> fault + 'b" where
  "bindf m f = (case m of Inl e \<Rightarrow> Inl e | Inr a \<Rightarrow> f a)"

lemma bindf_simps [simp]: "bindf (Inl e) f = Inl e" "bindf (Inr a) f = f a"
  by (simp_all add: bindf_def)

lemma bindf_InrE:
  assumes "bindf m f = Inr b"
  obtains a where "m = Inr a" "f a = Inr b"
  using assms by (cases m) auto

lemma bindf_cong [fundef_cong]:
  "m = m' \<Longrightarrow> (\<And>a. m' = Inr a \<Longrightarrow> f a = f' a) \<Longrightarrow> bindf m f = bindf m' f'"
  by (cases m') auto

lemma rd_InrD:
  "rd_u16 buf off = Inr x \<Longrightarrow> off + 2 \<le> length buf"
  "rd_u32 buf off = Inr y \<Longrightarrow> off + 4 \<le> length buf"
  by (auto simp: rd_u16_def rd_u32_def read_bytes_def split: option.splits if_splits)

section \<open>Attributes\<close>

text \<open>\<^verbatim>\<open>NLMSG_ALIGN\<close> and \<^verbatim>\<open>RTA_ALIGN\<close>; the 16-bit attribute length cannot wrap.\<close>

definition nlmsg_align :: "u32 \<Rightarrow> u32" where
  "nlmsg_align n = (n + 3) AND NOT 3"

definition rta_align :: "u16 \<Rightarrow> nat" where
  "rta_align n = (unat n + 3) div 4 * 4"

lemma rta_align_ge: "unat n \<le> rta_align n"
  by (simp add: rta_align_def)

text \<open>\<^verbatim>\<open>snprintf("%02x:...")\<close> of six bytes.\<close>

definition hex_digit :: "nat \<Rightarrow> char" where
  "hex_digit d = (if d < 10 then char_of (48 + d) else char_of (87 + d))"

definition hex2 :: "u8 \<Rightarrow> string" where
  "hex2 b = [hex_digit (unat b div 16), hex_digit (unat b mod 16)]"

fun mac_string :: "u8 list \<Rightarrow> string" where
  "mac_string [] = []"
| "mac_string [b] = hex2 b"
| "mac_string (b # bs) = hex2 b @ CHR '':'' # mac_string bs"

function parse_netlink_attributes ::
    "u8 list \<Rightarrow> nat \<Rightarrow> u32 \<Rightarrow> u32 \<times> string \<Rightarrow> fault + u32 \<times> string" where
  "parse_netlink_attributes buf rta rta_len (ip_v, mac) =
     (if unat rta_len < sizeof_rtattr then Inr (ip_v, mac)
      else bindf (rd_u16 buf rta) (\<lambda>len.
        if unat len < sizeof_rtattr \<or> unat len > unat rta_len then Inr (ip_v, mac)
        else
          let rta1 = rta + rta_align len;
              rta_len1 = rta_len - word_of_nat (rta_align len)
          in bindf (rd_u16 buf (rta + 2)) (\<lambda>rta_type.
            if rta_type = NDA_DST then
              bindf (rd_u32 buf (rta + 4)) (\<lambda>addr.
                parse_netlink_attributes buf rta1 rta_len1 (ntohl addr, mac))
            else if rta_type = NDA_LLADDR then
              (if unat len - 4 < 6 then Inr (ip_v, mac)
               else bindf (rd_bytes buf (rta + 4) 6) (\<lambda>mac_bytes.
                 let mac_buf = mac_string mac_bytes
                 in if length mac_buf \<ge> 18 then Inr (ip_v, mac)
                    else parse_netlink_attributes buf rta1 rta_len1 (ip_v, mac_buf)))
            else parse_netlink_attributes buf rta1 rta_len1 (ip_v, mac))))"
  by pat_completeness auto
termination
proof (relation "measure (\<lambda>(buf, rta, rta_len, _). length buf - rta)", goal_cases)
  case 1
  then show ?case by simp
next
  case (2 buf rta rta_len ip_v mac len)
  have "4 \<le> rta_align len" using 2(3) rta_align_ge [of len] by (simp add: sizeof_rtattr_def)
  with rd_InrD(1) [OF 2(2)] show ?case using 2 by simp
next
  case (3 buf rta rta_len ip_v mac len)
  have "4 \<le> rta_align len" using 3(3) rta_align_ge [of len] by (simp add: sizeof_rtattr_def)
  with rd_InrD(1) [OF 3(2)] show ?case using 3 by simp
next
  case (4 buf rta rta_len ip_v mac len)
  have "4 \<le> rta_align len" using 4(3) rta_align_ge [of len] by (simp add: sizeof_rtattr_def)
  with rd_InrD(1) [OF 4(2)] show ?case using 4 by simp
qed

declare parse_netlink_attributes.simps [simp del]

section \<open>Messages\<close>

definition netlink_error_text :: "int \<Rightarrow> string" where
  "netlink_error_text e =
     (if e = EACCES then ''Permission denied''
      else if e = EBADF then ''Bad file descriptor''
      else if e = EFAULT then ''Bad address''
      else if e = EINVAL then ''Invalid argument''
      else if e = ENOMEM then ''Out of memory''
      else if e = EPERM then ''Operation not permitted''
      else ''System error'')"

definition no_mac :: string where "no_mac = ''00:00:00:00:00:00''"

text \<open>
  One message. The result is whether the loop goes on; a message that ends it has closed the
  socket.
\<close>

definition parse_netlink_message ::
    "'w os \<Rightarrow> u8 list \<Rightarrow> nat \<Rightarrow> int \<Rightarrow> ArpEntry list \<times> 'w world
      \<Rightarrow> fault + bool \<times> ArpEntry list \<times> 'w world" where
  "parse_netlink_message os buf hdr sock_v ew =
     (let (entries, w) = ew in
      bindf (rd_u16 buf (hdr + 4)) (\<lambda>nlmsg_type.
      if nlmsg_type = NLMSG_DONE then Inr (False, entries, sys_close os sock_v w)
      else if nlmsg_type = NLMSG_ERROR then
        bindf (rd_u32 buf (hdr + sizeof_nlmsghdr)) (\<lambda>err.
          if sint err \<noteq> 0 then
            (if sint err = - (2 ^ 31) then Inl Signed_overflow else
             let netlink_errno = - sint err;
                 ((written, e), w1) = sys_call os (Fprintf_stderr
                   (errno_line ''Netlink error: '' netlink_errno (netlink_error_text netlink_errno))) w
             in if written < 0 then Inr (False, entries, sys_close os sock_v w1)
                else Inr (False, entries, sys_close os sock_v w1))
          else Inr (False, entries, sys_close os sock_v w))
      else if nlmsg_type \<noteq> RTM_NEWNEIGH then Inr (True, entries, w)
      else
        let ndm = hdr + sizeof_nlmsghdr in
        bindf (rd_u8 buf ndm) (\<lambda>ndm_family.
        if ndm_family \<noteq> AF_INET_u8 then Inr (True, entries, w)
        else
          let rta = ndm + sizeof_ndmsg in
          bindf (rd_u32 buf hdr) (\<lambda>nlmsg_len.
          let rta_len = nlmsg_len - word_of_nat (sizeof_nlmsghdr + sizeof_ndmsg) in
          bindf (parse_netlink_attributes buf rta rta_len (0, no_mac)) (\<lambda>(ip_v, mac).
          if ip_v \<noteq> 0 then
            bindf (rd_u16 buf (ndm + 8)) (\<lambda>ndm_state.
            if ndm_state AND NUD_INCOMPLETE \<noteq> 0 \<or> mac = no_mac then Inr (True, entries, w)
            else
              let first_byte = unat (drop_bit 24 ip_v AND 0xFF) in
              if first_byte \<ge> 224 \<and> first_byte \<le> 239 \<or> ip_v = 0xFFFFFFFF
              then Inr (True, entries, w)
              else
                bindf (rd_u32 buf (ndm + 4)) (\<lambda>ndm_ifindex.
                let (found, w1) = on_env (os_if_indextoname os ndm_ifindex) w;
                    ifname = (case found of Some n \<Rightarrow> n | None \<Rightarrow> ''unknown'')
                in Inr (True, entries @ [\<lparr>arp_ip = ip_v, mac_address = mac,
                     interface_index = sint ndm_ifindex, iface_name = ifname\<rparr>], w1)))
          else Inr (True, entries, w))))))"

section \<open>The table\<close>

text \<open>
  The walk over the messages of a datagram; \<open>remaining\<close> is what \<^verbatim>\<open>NLMSG_NEXT\<close> counts down, in 32
  bits. On a datagram whose lengths are wrong it may not end.
\<close>

partial_function (option) walk_messages ::
    "'w os \<Rightarrow> u8 list \<Rightarrow> int \<Rightarrow> nat \<Rightarrow> u32 \<Rightarrow> ArpEntry list \<times> 'w world
      \<Rightarrow> (bool \<times> ArpEntry list \<times> 'w world) outcome" where
  "walk_messages os buf sock_v hdr remaining ew =
     (if unat remaining < sizeof_nlmsghdr then Some (Inr (True, ew))
      else seq (Some (rd_u32 buf hdr)) (\<lambda>nlmsg_len.
        if unat nlmsg_len < sizeof_nlmsghdr \<or> unat nlmsg_len > unat remaining
        then Some (Inr (True, ew))
        else seq (Some (parse_netlink_message os buf hdr sock_v ew)) (\<lambda>(go, ew1).
          if \<not> go then Some (Inr (False, ew1))
          else walk_messages os buf sock_v (hdr + unat (nlmsg_align nlmsg_len))
                 (remaining - nlmsg_align nlmsg_len) ew1)))"

text \<open>The buffer is allocated once: a shorter datagram leaves the rest of an earlier one behind it.\<close>

definition fill_buffer :: "u8 list \<Rightarrow> u8 list \<Rightarrow> u8 list" where
  "fill_buffer buf datagram = datagram @ drop (length datagram) buf"

partial_function (option) receive_table ::
    "'w os \<Rightarrow> int \<Rightarrow> u8 list \<Rightarrow> ArpEntry list \<times> 'w world \<Rightarrow> (ArpEntry list \<times> 'w world) outcome" where
  "receive_table os sock_v buf ew =
     (let ((len, e, truncated, datagram), w) =
            on_env (os_recvmsg os sock_v (length buf)) (snd ew)
      in if len < 0 then
           (if e = EINTR then receive_table os sock_v buf (fst ew, w)
            else Some (Inr (fst ew, sys_close os sock_v w)))
         else if truncated then
           (let ((written, e2), w1) =
                  sys_call os (Fprintf_stderr (''Netlink response was truncated'' @ newline)) w
            in if written < 0 then Some (Inr (fst ew, sys_close os sock_v w1))
               else Some (Inr (fst ew, sys_close os sock_v w1)))
         else
           let buf1 = fill_buffer buf datagram
           in seq (walk_messages os buf1 sock_v 0 (word_of_int len) (fst ew, w)) (\<lambda>q.
                if fst q then receive_table os sock_v buf1 (snd q) else Some (Inr (snd q))))"

definition neighbour_request :: "u8 list" where
  "neighbour_request =
     put_u32 (word_of_nat (sizeof_nlmsghdr + sizeof_ndmsg)) @ put_u16 RTM_GETNEIGH @
     put_u16 (NLM_F_REQUEST OR NLM_F_DUMP) @ put_u32 0 @ put_u32 0 @
     put_u8 AF_INET_u8 @ replicate 11 0"

definition get_arp_table :: "'w os \<Rightarrow> 'w world \<Rightarrow> (ArpEntry list \<times> 'w world) outcome" where
  "get_arp_table os w =
     (let ((sock_v, e), w1) = sys_call os (Socket Netlink_socket) w
      in if sock_v < 0 then Some (Inr ([], w1))
         else
           let ((sent, e2), w2) = sys_call os (Send sock_v neighbour_request) w1
           in if sent < 0 then Some (Inr ([], sys_close os sock_v w2))
              else receive_table os sock_v (replicate rx_buf_size 0) ([], w2))"

section \<open>Output\<close>

text \<open>\<^verbatim>\<open>"%-15s | %-17s | %-10s | %-30s\n"\<close>, and the frame around the rows.\<close>

definition pad_right :: "nat \<Rightarrow> string \<Rightarrow> string" where
  "pad_right n s = s @ replicate (n - length s) CHR '' ''"

definition table_row :: "string \<Rightarrow> string \<Rightarrow> string \<Rightarrow> string \<Rightarrow> string" where
  "table_row a b c d =
     pad_right 15 a @ '' | '' @ pad_right 17 b @ '' | '' @ pad_right 10 c @ '' | '' @
     pad_right 30 d @ newline"

definition table_rule :: string where "table_rule = replicate 84 CHR ''-'' @ newline"

definition table_head :: string where
  "table_head = table_row ''IP ADDRESS'' ''MAC ADDRESS'' ''INTERFACE'' ''HOSTNAME'' @ table_rule"

definition table_foot :: "nat \<Rightarrow> string" where
  "table_foot n = table_rule @ ''[+] Total cached ARP entries: '' @ dec_string n @ newline"

definition table_empty :: string where
  "table_empty = ''[*] No ARP entries found in kernel cache.'' @ newline"

text \<open>The text buffer \<open>ip_str\<close> of \<^verbatim>\<open>print_arp_table\<close> is declared outside its loop.\<close>

fun arp_rows ::
    "'w os \<Rightarrow> bool \<Rightarrow> string \<Rightarrow> ArpEntry list \<Rightarrow> 'w world \<Rightarrow> string \<times> 'w world" where
  "arp_rows os dns ip_text [] w = ([], w)"
| "arp_rows os dns ip_text (entry # rest) w =
     (let text1 = format_ip (os_inet_ntop os) (arp_ip entry) ip_text INET_ADDRSTRLEN;
          (name, w1) = (if dns then resolve_hostname os (arp_ip entry) w else (''N/A'', w));
          (rows, w2) = arp_rows os dns text1 rest w1
      in (table_row text1 (mac_address entry) (iface_name entry) name @ rows, w2))"

definition print_arp_table :: "'w os \<Rightarrow> bool \<Rightarrow> 'w world \<Rightarrow> (string \<times> 'w world) outcome" where
  "print_arp_table os dns w =
     seq (get_arp_table os w) (\<lambda>(entries, w1).
       if entries = [] then Some (Inr (table_empty, w1))
       else
         let (rows, w2) = arp_rows os dns [] entries w1
         in Some (Inr (table_head @ rows @ table_foot (length entries), w2)))"

section \<open>Lemmas: the socket\<close>

text \<open>A message leaves the ledger alone, or ends the loop and closes the socket.\<close>

lemma parse_netlink_message_led:
  assumes "parse_netlink_message os buf hdr fd (es, w) = Inr (go, es', w')"
  shows "led w' = (if go then led w else led_step (Close fd) 0 (led w))"
  using assms
  by (auto simp: parse_netlink_message_def Let_def elim!: bindf_InrE dest!: led_dests
      split: if_splits prod.splits)

lemma walk_messages_led:
  assumes "walk_messages os buf fd hdr remaining ew = Some r"
  shows "on_return (\<lambda>(go, es, w'). led w' = (if go then led (snd ew) else led_step (Close fd) 0 (led (snd ew)))) r"
  using assms
proof (induction os buf fd hdr remaining ew r
    rule: walk_messages.raw_induct [rotated, consumes 1, case_names step])
  case (step f os buf fd hdr remaining ew r)
  show ?case
  proof (cases "unat remaining < sizeof_nlmsghdr")
    case True
    with step.hyps show ?thesis by (cases ew) auto
  next
    case False
    then show ?thesis
    proof (cases "rd_u32 buf hdr")
      case (Inl e)
      with step.hyps False show ?thesis by auto
    next
      case (Inr len)
      show ?thesis
      proof (cases "unat len < sizeof_nlmsghdr \<or> unat len > unat remaining")
        case True
        with step.hyps False Inr show ?thesis by (cases ew) auto
      next
        case len_ok: False
        show ?thesis
        proof (cases "parse_netlink_message os buf hdr fd ew")
          case (Inl e)
          with step.hyps False Inr len_ok show ?thesis by auto
        next
          case msg: (Inr q)
          obtain go es1 w1 where q: "q = (go, es1, w1)" by (cases q)
          obtain es w where ew: "ew = (es, w)" by (cases ew)
          note led = parse_netlink_message_led [OF msg [unfolded q ew]]
          have eq: "(if \<not> go then Some (Inr (False, es1, w1))
              else f os buf fd (hdr + unat (nlmsg_align len)) (remaining - nlmsg_align len) (es1, w1)) = Some r"
            using step.hyps False Inr len_ok msg q by simp
          show ?thesis
          proof (cases go)
            case False
            with eq led ew show ?thesis by auto
          next
            case True
            then have "f os buf fd (hdr + unat (nlmsg_align len)) (remaining - nlmsg_align len) (es1, w1) = Some r"
              using eq by simp
            from step.IH [OF this] led True ew show ?thesis by (simp cong: if_cong)
          qed
        qed
      qed
    qed
  qed
qed

lemma receive_table_led:
  assumes "receive_table os fd buf ew = Some r" and "led (snd ew) = d\<lparr>open_fds := fd # open_fds d\<rparr>"
  shows "on_return (\<lambda>(es, w'). led w' = d) r"
  using assms
proof (induction os fd buf ew r rule: receive_table.raw_induct [rotated, consumes 1, case_names step])
  case (step f os fd buf ew r)
  obtain len e truncated datagram w where
    call: "on_env (os_recvmsg os fd (length buf)) (snd ew) = ((len, e, truncated, datagram), w)"
    by (metis surj_pair)
  have led: "led w = d\<lparr>open_fds := fd # open_fds d\<rparr>" using on_env_led [OF call] step.prems by simp
  have cl: "led (sys_close os fd v) = d" if "led v = led w" for v using that by (simp add: led)
  consider (again) "len < 0" "e = EINTR" | (err) "len < 0" "e \<noteq> EINTR" | (trunc) "\<not> len < 0" truncated
    | (data) "\<not> len < 0" "\<not> truncated" by blast
  then show ?case
  proof cases
    case again
    with step.hyps call have "f os fd buf (fst ew, w) = Some r" by simp
    from step.IH [OF this] led show ?thesis by simp
  next
    case err
    with step.hyps call cl show ?thesis by auto
  next
    case trunc
    obtain a w1 where "sys_call os (Fprintf_stderr (''Netlink response was truncated'' @ newline)) w = (a, w1)" by (metis surj_pair)
    with step.hyps call cl trunc show ?thesis
      by (cases a) (auto dest!: sys_call_led split: if_splits)
  next
    case data
    let ?b = "fill_buffer buf datagram"
    have "seq (walk_messages os ?b fd 0 (word_of_int len) (fst ew, w)) (\<lambda>q.
        if fst q then f os fd ?b (snd q) else Some (Inr (snd q))) = Some r"
      using step.hyps call data by (simp add: Let_def)
    then show ?thesis
    proof (rule on_return_seq [where P = "\<lambda>(go, es, w'). led w' = (if go then led w else led_step (Close fd) 0 (led w))"])
      show "on_return (\<lambda>(go, es, w'). led w' = (if go then led w else led_step (Close fd) 0 (led w))) q"
        if "walk_messages os ?b fd 0 (word_of_int len) (fst ew, w) = Some q" for q
        using walk_messages_led [OF that] unfolding snd_conv .
      fix q r
      assume q: "case q of (go, es, w') \<Rightarrow> led w' = (if go then led w else led_step (Close fd) 0 (led w))"
        and go: "(if fst q then f os fd ?b (snd q) else Some (Inr (snd q))) = Some r"
      show "on_return (\<lambda>(es, w'). led w' = d) r"
      proof (cases "fst q")
        case True
        then have "f os fd ?b (snd q) = Some r" using go by simp
        from step.IH [OF this] q led True show ?thesis by (auto split: prod.splits)
      next
        case False
        with go q led show ?thesis by (cases q) auto
      qed
    qed
  qed
qed

lemma get_arp_table_led:
  assumes "get_arp_table os w = Some r"
  shows "on_return (\<lambda>(es, w'). led w' = led w) r"
proof -
  obtain fd e w1 where c1: "sys_call os (Socket Netlink_socket) w = ((fd, e), w1)" by (metis surj_pair)
  show ?thesis
  proof (cases "fd < 0")
    case True
    with assms sys_call_led [OF c1] show ?thesis by (auto simp: get_arp_table_def c1)
  next
    case False
    obtain n e2 w2 where c2: "sys_call os (Send fd neighbour_request) w1 = ((n, e2), w2)" by (metis surj_pair)
    have led: "led w2 = (led w)\<lparr>open_fds := fd # open_fds (led w)\<rparr>"
      using sys_call_led [OF c1] sys_call_led [OF c2] False by simp
    show ?thesis
    proof (cases "n < 0")
      case True
      with assms False led show ?thesis by (auto simp: get_arp_table_def c1 c2)
    next
      case nn: False
      then have "receive_table os fd (replicate rx_buf_size 0) ([], w2) = Some r"
        using assms False by (simp add: get_arp_table_def c1 c2)
      then show ?thesis by (rule receive_table_led) (simp add: led)
    qed
  qed
qed


section \<open>Lemmas: what is kept\<close>

text \<open>
  An entry of the table has an address that is neither zero, multicast nor broadcast, and a
  hardware address that is resolved.
\<close>

definition arp_entry_ok :: "ArpEntry \<Rightarrow> bool" where
  "arp_entry_ok e \<longleftrightarrow> arp_ip e \<noteq> 0 \<and> mac_address e \<noteq> no_mac \<and>
     \<not> (0xE0000000 \<le> arp_ip e \<and> arp_ip e \<le> 0xEFFFFFFF) \<and> arp_ip e \<noteq> 0xFFFFFFFF"

lemma first_byte: "unat (drop_bit 24 (a :: u32) AND 0xFF) = unat a div 2 ^ 24"
proof -
  have "drop_bit 24 a AND 0xFF = take_bit 8 (drop_bit 24 a)"
    by (simp add: take_bit_eq_mask mask_eq_exp_minus_1)
  also have "\<dots> = drop_bit 24 a"
    by (rule bit_word_eqI) (auto simp: bit_simps dest: bit_imp_le_length)
  finally have "unat (drop_bit 24 a AND 0xFF) = unat (drop_bit 24 a)" by (rule arg_cong)
  also have "\<dots> = drop_bit 24 (unat a)" by (rule unat_drop_bit_eq)
  finally show ?thesis unfolding drop_bit_nat_def .
qed

lemma multicast_first_byte:
  "224 \<le> unat (drop_bit 24 (a :: u32) AND 0xFF) \<and> unat (drop_bit 24 a AND 0xFF) \<le> 239 \<longleftrightarrow>
    0xE0000000 \<le> a \<and> a \<le> 0xEFFFFFFF"
proof -
  have "224 \<le> n div 2 ^ 24 \<and> n div 2 ^ 24 \<le> 239 \<longleftrightarrow> 224 * 2 ^ 24 \<le> n \<and> n \<le> 240 * 2 ^ 24 - 1" for n :: nat
    using less_eq_div_iff_mult_less_eq [of "2 ^ 24" 224 n] div_less_iff_less_mult [of "2 ^ 24" n 240] by auto
  then show ?thesis unfolding first_byte word_le_nat_alt by simp
qed

lemma parse_netlink_message_ok:
  assumes "parse_netlink_message os buf hdr fd (es, w) = Inr (go, es', w')" and "list_all arp_entry_ok es"
  shows "list_all arp_entry_ok es'"
  using assms
  by (auto simp: parse_netlink_message_def Let_def arp_entry_ok_def multicast_first_byte
      elim!: bindf_InrE split: if_splits prod.splits)

lemma walk_messages_ok:
  assumes "walk_messages os buf fd hdr remaining ew = Some r" and "list_all arp_entry_ok (fst ew)"
  shows "on_return (\<lambda>(go, es, w'). list_all arp_entry_ok es) r"
  using assms
proof (induction os buf fd hdr remaining ew r
    rule: walk_messages.raw_induct [rotated, consumes 1, case_names step])
  case (step f os buf fd hdr remaining ew r)
  obtain es w where ew: "ew = (es, w)" by (cases ew)
  show ?case
  proof (cases "unat remaining < sizeof_nlmsghdr")
    case True
    with step ew show ?thesis by auto
  next
    case False
    then have go: "seq (Some (rd_u32 buf hdr)) (\<lambda>len.
        if unat len < sizeof_nlmsghdr \<or> unat len > unat remaining then Some (Inr (True, ew))
        else seq (Some (parse_netlink_message os buf hdr fd ew)) (\<lambda>(go, ew1).
          if \<not> go then Some (Inr (False, ew1))
          else f os buf fd (hdr + unat (nlmsg_align len)) (remaining - nlmsg_align len) ew1)) = Some r"
      using step.hyps by simp
    show ?thesis
    proof (rule on_return_seq [OF go, where P = "\<lambda>_. True"])
      fix len r assume len: "(if unat len < sizeof_nlmsghdr \<or> unat len > unat remaining then Some (Inr (True, ew))
        else seq (Some (parse_netlink_message os buf hdr fd ew)) (\<lambda>(go, ew1).
          if \<not> go then Some (Inr (False, ew1))
          else f os buf fd (hdr + unat (nlmsg_align len)) (remaining - nlmsg_align len) ew1)) = Some r"
      show "on_return (\<lambda>(go, es, w'). list_all arp_entry_ok es) r"
      proof (cases "unat len < sizeof_nlmsghdr \<or> unat len > unat remaining")
        case True
        with len step.prems ew show ?thesis by auto
      next
        case False
        with len have "seq (Some (parse_netlink_message os buf hdr fd ew)) (\<lambda>(go, ew1).
          if \<not> go then Some (Inr (False, ew1))
          else f os buf fd (hdr + unat (nlmsg_align len)) (remaining - nlmsg_align len) ew1) = Some r" by simp
        then show ?thesis
        proof (rule on_return_seq [where P = "\<lambda>(go, es, w'). list_all arp_entry_ok es"])
          fix q assume "Some (parse_netlink_message os buf hdr fd ew) = Some q"
          then show "on_return (\<lambda>(go, es, w'). list_all arp_entry_ok es) q"
            using parse_netlink_message_ok [of os buf hdr fd es w] step.prems ew
            by (cases q) auto
        next
          fix a :: "bool \<times> ArpEntry list \<times> 'a world" and r
          assume "case a of (go, es, w') \<Rightarrow> list_all arp_entry_ok es"
            and "(case a of (go, ew1) \<Rightarrow> if \<not> go then Some (Inr (False, ew1))
              else f os buf fd (hdr + unat (nlmsg_align len)) (remaining - nlmsg_align len) ew1) = Some r"
          then show "on_return (\<lambda>(go, es, w'). list_all arp_entry_ok es) r"
            using step.IH by (auto split: prod.splits if_splits)
        qed
      qed
    qed (simp add: on_return_def split: sum.split)
  qed
qed

lemma receive_table_ok:
  assumes "receive_table os fd buf ew = Some r" and "list_all arp_entry_ok (fst ew)"
  shows "on_return (\<lambda>(es, w'). list_all arp_entry_ok es) r"
  using assms
proof (induction os fd buf ew r rule: receive_table.raw_induct [rotated, consumes 1, case_names step])
  case (step f os fd buf ew r)
  obtain len e truncated datagram w where
    call: "on_env (os_recvmsg os fd (length buf)) (snd ew) = ((len, e, truncated, datagram), w)"
    by (metis surj_pair)
  show ?case
  proof (cases "len < 0 \<or> truncated")
    case True
    with step call show ?thesis by (auto simp: Let_def split: if_splits prod.splits)
  next
    case False
    let ?b = "fill_buffer buf datagram"
    have "seq (walk_messages os ?b fd 0 (word_of_int len) (fst ew, w)) (\<lambda>q.
        if fst q then f os fd ?b (snd q) else Some (Inr (snd q))) = Some r"
      using step.hyps call False by (simp add: Let_def)
    then show ?thesis
    proof (rule on_return_seq [where P = "\<lambda>(go, es, w'). list_all arp_entry_ok es"])
      show "on_return (\<lambda>(go, es, w'). list_all arp_entry_ok es) q"
        if "walk_messages os ?b fd 0 (word_of_int len) (fst ew, w) = Some q" for q
        using walk_messages_ok [OF that] step.prems by simp
      fix q :: "bool \<times> ArpEntry list \<times> 'a world" and r
      assume "case q of (go, es, w') \<Rightarrow> list_all arp_entry_ok es"
        and "(if fst q then f os fd ?b (snd q) else Some (Inr (snd q))) = Some r"
      then show "on_return (\<lambda>(es, w'). list_all arp_entry_ok es) r"
        using step.IH by (auto split: prod.splits if_splits)
    qed
  qed
qed

lemma get_arp_table_ok:
  assumes "get_arp_table os w = Some r"
  shows "on_return (\<lambda>(es, w'). list_all arp_entry_ok es) r"
  using assms
  by (auto simp: get_arp_table_def Let_def dest!: receive_table_ok split: prod.splits if_splits)

end
