(* ===== verification/Cli.thy ===== *)
theory Cli
  imports Ping_Socket Tcp_Run Arp_Table
begin

text \<open>
  \<^verbatim>\<open>src/main.cpp\<close>: the options, and the three modes. \<^verbatim>\<open>argp\<close> is a library: what it makes of the
  command line, a sequence of calls of \<open>parse_opt\<close> with perhaps an exit of its own among them
  (\<^verbatim>\<open>--help\<close>, a bad option), is a parameter. A run of the program is its standard output and its
  exit status; standard error goes to the world.
\<close>

section \<open>Printf\<close>

text \<open>
  \<^verbatim>\<open>%6.2f\<close> and \<^verbatim>\<open>%.3f\<close>: the nearest multiple of the last digit, ties to even, and padding on the left.
\<close>

definition round_half_even :: "rat \<Rightarrow> int" where
  "round_half_even x =
     (let f = floor x; d = x - of_int f
      in if d < 1 / 2 then f else if d > 1 / 2 then f + 1 else if even f then f else f + 1)"

definition pad_left :: "char \<Rightarrow> nat \<Rightarrow> string \<Rightarrow> string" where
  "pad_left c n s = replicate (n - length s) c @ s"

definition fixed_string :: "nat \<Rightarrow> rat \<Rightarrow> string" where
  "fixed_string p x =
     (let n = nat (round_half_even (\<bar>x\<bar> * 10 ^ p))
      in (if x < 0 then ''-'' else []) @ dec_string (n div 10 ^ p) @ ''.'' @
         pad_left CHR ''0'' p (dec_string (n mod 10 ^ p)))"

definition bool_string :: "bool \<Rightarrow> string" where
  "bool_string b = (if b then ''true'' else ''false'')"

section \<open>Options\<close>

record Config =
  cidr_arg :: string
  mode :: string
  opt_port :: u16
  opt_payload_len :: size_t
  opt_max_probes :: size_t
  opt_timeout_ms :: u32
  opt_send_batch :: size_t
  opt_recv_batch :: size_t
  opt_resolve_dns :: bool
  print_local_ip :: bool
  print_broadcast_ip :: bool
  print_network_ip :: bool

definition Config_init :: Config where
  "Config_init =
     \<lparr>cidr_arg = [], mode = ''ping'', opt_port = DEFAULT_TCP_PORT,
      opt_payload_len = DEFAULT_PAYLOAD_LEN, opt_max_probes = DEFAULT_MAX_PROBES,
      opt_timeout_ms = 0, opt_send_batch = DEFAULT_PING_SEND_BATCH_SIZE,
      opt_recv_batch = DEFAULT_PING_RECV_BATCH_SIZE, opt_resolve_dns = DEFAULT_RESOLVE_DNS,
      print_local_ip = False, print_broadcast_ip = False, print_network_ip = False\<rparr>"

text \<open>
  A key is an option character, or one of argp's own. A call of \<open>parse_opt\<close> returns 0 or
  \<^verbatim>\<open>ARGP_ERR_UNKNOWN\<close>, or does not return because \<^verbatim>\<open>argp_usage\<close> exits.
\<close>

datatype argp_key = Opt char | ARGP_KEY_ARG | ARGP_KEY_END | Other_key

datatype parse_result = Usage | Unknown Config | Parsed Config

definition parse_opt :: "argp_key \<Rightarrow> string \<Rightarrow> nat \<Rightarrow> Config \<Rightarrow> parse_result" where
  "parse_opt key arg arg_num config =
     (let n = strtoul10 arg in
      case key of
        Opt c \<Rightarrow>
          if c = CHR ''m'' then Parsed (config\<lparr>mode := arg\<rparr>)
          else if c = CHR ''p'' then Parsed (config\<lparr>opt_port := ucast n\<rparr>)
          else if c = CHR ''l'' then Parsed (config\<lparr>opt_payload_len := unat n\<rparr>)
          else if c = CHR ''c'' then Parsed (config\<lparr>opt_max_probes := unat n\<rparr>)
          else if c = CHR ''t'' then Parsed (config\<lparr>opt_timeout_ms := ucast n\<rparr>)
          else if c = CHR ''s'' then Parsed (config\<lparr>opt_send_batch := unat n\<rparr>)
          else if c = CHR ''r'' then Parsed (config\<lparr>opt_recv_batch := unat n\<rparr>)
          else if c = CHR ''d'' then Parsed (config\<lparr>opt_resolve_dns := (n \<noteq> 0)\<rparr>)
          else if c = CHR ''L'' then Parsed (config\<lparr>print_local_ip := True\<rparr>)
          else if c = CHR ''B'' then Parsed (config\<lparr>print_broadcast_ip := True\<rparr>)
          else if c = CHR ''N'' then Parsed (config\<lparr>print_network_ip := True\<rparr>)
          else Unknown config
      | ARGP_KEY_ARG \<Rightarrow>
          if arg_num \<ge> 1 then Usage else Parsed (config\<lparr>cidr_arg := arg\<rparr>)
      | ARGP_KEY_END \<Rightarrow> Parsed config
      | Other_key \<Rightarrow> Unknown config)"

text \<open>
  What argp does with a command line: calls of \<open>parse_opt\<close> (key, argument, number of arguments
  seen), or an exit with a status. \<open>EX_USAGE\<close> is the status of \<^verbatim>\<open>argp_usage\<close>. argp ignores
  \<^verbatim>\<open>ARGP_ERR_UNKNOWN\<close> for its own keys, and does not call \<open>parse_opt\<close> for other options than
  those of the table.
\<close>

datatype argp_event = Call argp_key string nat | Exit int

definition EX_USAGE :: int where "EX_USAGE = 64"

fun argp_parse :: "argp_event list \<Rightarrow> Config \<Rightarrow> int + Config" where
  "argp_parse [] config = Inr config"
| "argp_parse (Exit status # rest) config = Inl status"
| "argp_parse (Call key arg arg_num # rest) config =
     (case parse_opt key arg arg_num config of
        Usage \<Rightarrow> Inl EX_USAGE
      | Unknown config1 \<Rightarrow> argp_parse rest config1
      | Parsed config1 \<Rightarrow> argp_parse rest config1)"

section \<open>ARP mode\<close>

fun arp_mode_rows :: "'w os \<Rightarrow> bool \<Rightarrow> ArpEntry list \<Rightarrow> 'w world \<Rightarrow> string \<times> 'w world" where
  "arp_mode_rows os dns [] w = ([], w)"
| "arp_mode_rows os dns (entry # rest) w =
     (let ip_text = inet_ntop_into (os_inet_ntop os) (htonl (arp_ip entry)) [] INET_ADDRSTRLEN;
          (name, w1) = (if dns then resolve_hostname os (arp_ip entry) w else (''N/A'', w));
          (rows, w2) = arp_mode_rows os dns rest w1
      in (table_row ip_text (mac_address entry) (iface_name entry) name @ rows, w2))"

definition arp_banner :: "bool \<Rightarrow> string" where
  "arp_banner dns = ''[*] Querying system ARP table via Netlink (dns='' @ bool_string dns @ '')...'' @
     newline @ newline"

definition handle_arp_mode :: "'w os \<Rightarrow> bool \<Rightarrow> 'w world \<Rightarrow> ((string \<times> int) \<times> 'w world) outcome" where
  "handle_arp_mode os dns w =
     seq (get_arp_table os w) (\<lambda>(arp_entries, w1).
       if arp_entries = [] then Some (Inr ((arp_banner dns @ table_empty, 0), w1))
       else
         let (rows, w2) = arp_mode_rows os dns arp_entries w1
         in Some (Inr ((arp_banner dns @ table_head @ rows @ table_foot (length arp_entries), 0), w2)))"

section \<open>Scan modes\<close>

definition ping_config :: "u32 \<Rightarrow> u32 \<Rightarrow> u32 \<Rightarrow> Config \<Rightarrow> PingScannerConfig" where
  "ping_config base num_hosts tmo config =
     \<lparr>cfg_base_ip = base, cfg_total_hosts = unat num_hosts, cfg_payload_len = opt_payload_len config,
      cfg_max_probes = opt_max_probes config, cfg_timeout_ms = tmo,
      cfg_send_batch_size = opt_send_batch config, cfg_recv_batch_size = opt_recv_batch config,
      cfg_resolve_dns = opt_resolve_dns config, cfg_result_callback = True\<rparr>"

definition tcp_config :: "u32 \<Rightarrow> u32 \<Rightarrow> u32 \<Rightarrow> Config \<Rightarrow> TcpScannerConfig" where
  "tcp_config base num_hosts tmo config =
     \<lparr>tcfg_base_ip = base, tcfg_total_hosts = unat num_hosts, tcfg_target_port = opt_port config,
      tcfg_max_probes = opt_max_probes config, tcfg_timeout_ms = tmo,
      tcfg_batch_size = opt_send_batch config, tcfg_resolve_dns = opt_resolve_dns config,
      tcfg_result_callback = True\<rparr>"

definition ping_banner :: "u32 \<Rightarrow> u32 \<Rightarrow> Config \<Rightarrow> string" where
  "ping_banner num_hosts tmo config =
     ''[*] Starting ICMP Ping Scan on '' @ dec_string (unat num_hosts) @ '' hosts from '' @ cidr_arg config @
     '' (payload='' @ dec_string (opt_payload_len config) @ '', probes='' @ dec_string (opt_max_probes config) @
     '', timeout_ms='' @ dec_string (unat tmo) @ '', send_batch='' @ dec_string (opt_send_batch config) @
     '', recv_batch='' @ dec_string (opt_recv_batch config) @
     '', dns='' @ bool_string (opt_resolve_dns config) @ '')'' @ newline @ newline"

definition tcp_banner :: "u32 \<Rightarrow> u32 \<Rightarrow> Config \<Rightarrow> string" where
  "tcp_banner num_hosts tmo config =
     ''[*] Starting TCP Scan on '' @ dec_string (unat num_hosts) @ '' hosts from '' @ cidr_arg config @
     '' (Port: '' @ dec_string (unat (opt_port config)) @ '', probes='' @ dec_string (opt_max_probes config) @
     '', timeout_ms='' @ dec_string (unat tmo) @ '', send_batch='' @ dec_string (opt_send_batch config) @
     '', dns='' @ bool_string (opt_resolve_dns config) @ '')'' @ newline @ newline"

definition ping_line :: "PingHostResult \<Rightarrow> string" where
  "ping_line res =
     ''[+] IP: '' @ pad_right 15 (ip_str res) @ '' | Hostname: '' @ pad_right 40 (hostname res) @
     '' | RTT: '' @ pad_left CHR '' '' 6 (fixed_string 2 (rtt_ms res)) @
     '' ms | TTL: '' @ pad_left CHR '' '' 3 (int_string (ttl res)) @ newline"

definition tcp_line :: "TcpHostResult \<Rightarrow> string" where
  "tcp_line res =
     ''[+] IP: '' @ pad_right 15 (ip_str res) @ '' | Hostname: '' @ pad_right 40 (hostname res) @
     '' | Port: '' @ pad_right 5 (dec_string (unat (port res))) @
     '' | RTT: '' @ pad_left CHR '' '' 6 (fixed_string 2 (rtt_ms res)) @ '' ms | OPEN'' @ newline"

text \<open>
  \<^verbatim>\<open>total_scan_time_sec\<close>; the differences of the seconds and of the nanoseconds are taken in 64 bits.
\<close>

definition scan_seconds :: "timespec \<Rightarrow> timespec \<Rightarrow> rat option" where
  "scan_seconds t0 t1 = do {
     ds \<leftarrow> chk64 (tv_sec t1 - tv_sec t0);
     dn \<leftarrow> chk64 (tv_nsec t1 - tv_nsec t0);
     Some (of_int ds + of_int dn / of_int NANOSECONDS_PER_SECOND_LL)
   }"

definition rule_line :: string where
  "rule_line = replicate 40 CHR ''='' @ newline"

definition ping_summary :: "PingScanResult \<Rightarrow> rat \<Rightarrow> string" where
  "ping_summary results t =
     newline @ rule_line @ ''        ICMP PING SCAN COMPLETE        '' @ newline @ rule_line @
     ''Total unique responsive hosts found : '' @ dec_string (length (hosts results)) @ newline @
     ''Total scan time                     : '' @ fixed_string 3 t @ '' seconds'' @ newline @
     ''TX Throttles / Drops                : '' @ dec_string (unat (total_tx_drops results)) @ newline @
     ''RX Queue Overflows                  : '' @ dec_string (unat (total_rx_queue_overflows results)) @ newline @
     ''ICMP Echo Replies Received          : '' @ dec_string (unat (total_echo_replies results)) @ newline @
     ''Unmatched Echo Replies              : '' @ dec_string (unat (total_unmatched_replies results)) @ newline @
     ''Probe Timeouts                      : '' @ dec_string (unat (total_probe_timeouts results)) @ newline @
     rule_line"

definition tcp_summary :: "u16 \<Rightarrow> TcpHostResult list \<Rightarrow> rat \<Rightarrow> string" where
  "tcp_summary target results t =
     newline @ rule_line @ ''       TCP SCAN COMPLETE        '' @ newline @ rule_line @
     ''Target Port                         : '' @ dec_string (unat target) @ newline @
     ''Total unique open hosts found       : '' @ dec_string (length results) @ newline @
     ''Total scan time                     : '' @ fixed_string 3 t @ '' seconds'' @ newline @
     rule_line"

definition eprint :: "'w os \<Rightarrow> string \<Rightarrow> 'w world \<Rightarrow> 'w world" where
  "eprint os line w = snd (sys_call os (Fprintf_stderr (line @ newline)) w)"

definition scan_timeout :: "Config \<Rightarrow> u32" where
  "scan_timeout config =
     (if opt_timeout_ms config = 0
      then (if mode config = ''tcp'' then DEFAULT_TCP_TIMEOUT_MS else DEFAULT_PING_TIMEOUT_MS)
      else opt_timeout_ms config)"

definition execute_network_scan ::
    "'w os \<Rightarrow> u32 \<Rightarrow> Config \<Rightarrow> 'w world \<Rightarrow> ((string \<times> int) \<times> 'w world) outcome" where
  "execute_network_scan os pad config w =
     (case parse_cidr (os_inet_pton os) (Some (cidr_arg config)) of
        None \<Rightarrow> Some (Inr (([], 1), eprint os (''Invalid CIDR specification: '' @ cidr_arg config) w))
      | Some (base, num_hosts) \<Rightarrow>
          let tmo = scan_timeout config in
          if mode config = ''ping'' then
            seq (ping_session os pad (ping_config base num_hosts tmo config) w) (\<lambda>((results, shown, t0, t1), w1).
              case scan_seconds t0 t1 of
                None \<Rightarrow> Some (Inl Signed_overflow)
              | Some t \<Rightarrow> Some (Inr ((ping_banner num_hosts tmo config @ concat (map ping_line shown) @
                    ping_summary results t, 0), w1)))
          else if mode config = ''tcp'' then
            seq (tcp_session os (tcp_config base num_hosts tmo config) w) (\<lambda>((results, shown, t0, t1), w1).
              case scan_seconds t0 t1 of
                None \<Rightarrow> Some (Inl Signed_overflow)
              | Some t \<Rightarrow> Some (Inr ((tcp_banner num_hosts tmo config @ concat (map tcp_line shown) @
                    tcp_summary (opt_port config) results t, 0), w1)))
          else Some (Inr (([], 1), eprint os (''Unknown scan mode: '' @ mode config @
                 ''. Use 'ping', 'tcp', or 'arp'.'') w)))"

section \<open>The program\<close>

text \<open>The three addresses of the local interface, as far as asked for.\<close>

definition print_interface :: "Config \<Rightarrow> NetworkInterface \<Rightarrow> string" where
  "print_interface config i =
     (if print_local_ip config then if_ip i @ newline else []) @
     (if print_broadcast_ip config then if_broadcast i @ newline else []) @
     (if print_network_ip config then if_network i @ newline else [])"

definition print_addresses ::
    "'w os \<Rightarrow> Config \<Rightarrow> 'w world \<Rightarrow> (string \<times> int) \<times> 'w world" where
  "print_addresses os config w =
     (case (if cidr_arg config \<noteq> [] then parse_cidr (os_inet_pton os) (Some (cidr_arg config))
            else Some (0, 0)) of
        None \<Rightarrow> (([], 1), eprint os (''Invalid CIDR specification: '' @ cidr_arg config) w)
      | Some (base, num_hosts) \<Rightarrow>
          let (i, w1) = fetch os base num_hosts w in
          if if_ip i = [] \<or> if_network i = [] \<or> if_broadcast i = []
          then (([], 1), eprint os ''Error: Could not determine local network interface.'' w1)
          else ((print_interface config i, 0), w1))"

definition run_main ::
    "'w os \<Rightarrow> u32 \<Rightarrow> argp_event list \<Rightarrow> 'w world \<Rightarrow> ((string \<times> int) \<times> 'w world) outcome" where
  "run_main os pad events w =
     (case argp_parse events Config_init of
        Inl status \<Rightarrow> Some (Inr (([], status), w))
      | Inr config \<Rightarrow>
          if print_local_ip config \<or> print_broadcast_ip config \<or> print_network_ip config
          then Some (Inr (print_addresses os config w))
          else if mode config = ''arp'' then handle_arp_mode os (opt_resolve_dns config) w
          else if cidr_arg config = [] then
            Some (Inr (([], 1), eprint os
              ''Error: No target CIDR or IP specified. Run with --help for usage.'' w))
          else execute_network_scan os pad config w)"

section \<open>Lemmas\<close>

text \<open>Whatever is parsed makes a scanner that is sound: with a block of prefix 0 there is nothing to scan.\<close>

lemma parse_cidr_scan:
  assumes "parse_cidr pton input = Some (b, c)"
  shows "unat b + unat c \<le> 2 ^ 32" and "unat c \<le> 2 ^ 31"
proof -
  have "unat b + unat c \<le> 2 ^ 32 \<and> unat c \<le> 2 ^ 31"
    using assms
  proof (cases rule: parse_cidr_SomeE)
    case (single s a)
    then show ?thesis using unat_u32_lt [of b] by simp
  next
    case (block s i a p)
    show ?thesis
    proof (cases "p = 0")
      case True
      have "c = snd (cidr_block (ntohl a) 0)" using True block(5) by (metis snd_conv)
      then have "c = 0" by (simp only: cidr_count_0)
      then show ?thesis using unat_u32_lt [of b] by simp
    next
      case False
      then show ?thesis using cidr_block_bounds(1,2) [OF _ block(4) block(5) [symmetric]] by blast
    qed
  qed
  then show "unat b + unat c \<le> 2 ^ 32" and "unat c \<le> 2 ^ 31" by simp_all
qed

definition options_ok :: "Config \<Rightarrow> bool" where
  "options_ok c \<longleftrightarrow> opt_max_probes c < 2 ^ 31 \<and> opt_payload_len c < 2 ^ 31"

lemma scan_configs_ok:
  assumes "parse_cidr pton input = Some (b, c)" and "options_ok config"
  shows "config_ok (ping_config b c tmo config)" and "tcp_config_ok (tcp_config b c tmo config)"
  using parse_cidr_scan [OF assms(1)] assms(2)
  by (simp_all add: config_ok_def tcp_config_ok_def options_ok_def ping_config_def tcp_config_def)

text \<open>The two renderings of the neighbour table.\<close>

lemma arp_mode_rows_eq:
  assumes "\<And>a. length (os_inet_ntop os a) < INET_ADDRSTRLEN"
  shows "arp_mode_rows os dns es w = arp_rows os dns buf es w"
  by (induction es arbitrary: w buf)
    (simp_all add: format_ip_def inet_ntop_into_def assms Let_def split: prod.splits)

lemma handle_arp_mode_eq:
  assumes "\<And>a. length (os_inet_ntop os a) < INET_ADDRSTRLEN"
  shows "handle_arp_mode os dns w =
    seq (print_arp_table os dns w) (\<lambda>(text, w1). Some (Inr ((arp_banner dns @ text, 0), w1)))"
proof (cases "get_arp_table os w")
  case (Some r)
  then show ?thesis
    by (cases r) (auto simp: handle_arp_mode_def print_arp_table_def arp_mode_rows_eq [OF assms, of _ _ _ "[]"]
        Let_def split: prod.splits)
qed (simp add: handle_arp_mode_def print_arp_table_def)

text \<open>Descriptors: every mode gives back the ledger it got.\<close>

definition same_led :: "'w world \<Rightarrow> 'w world \<Rightarrow> bool" where
  "same_led w w' \<longleftrightarrow> mset (open_fds (led w')) = mset (open_fds (led w)) \<and>
     bad_closes (led w') = bad_closes (led w)"

lemma same_ledI: "led w' = led w \<Longrightarrow> same_led w w'"
  by (simp add: same_led_def)

lemma eprint_led [simp]: "led (eprint os line w) = led w"
  by (simp add: eprint_def sys_call_def split: prod.splits)

lemma resolve_hostname_led: "resolve_hostname os a w = (name, w') \<Longrightarrow> led w' = led w"
  by (auto simp: resolve_hostname_def dest: on_env_led split: prod.splits)

lemma arp_mode_rows_led: "arp_mode_rows os dns es w = (rows, w') \<Longrightarrow> led w' = led w"
  by (induction es arbitrary: w rows)
    (auto simp: Let_def dest!: resolve_hostname_led split: prod.splits if_splits)

lemma handle_arp_mode_led:
  assumes "handle_arp_mode os dns w = Some (Inr (out, w'))"
  shows "led w' = led w"
proof -
  obtain es w1 where g: "get_arp_table os w = Some (Inr (es, w1))"
    using assms by (auto simp: handle_arp_mode_def elim!: seq_InrE)
  from get_arp_table_led [OF g] have "led w1 = led w" by simp
  with assms g show ?thesis
    by (auto simp: handle_arp_mode_def Let_def dest: arp_mode_rows_led split: if_splits prod.splits)
qed

lemma execute_network_scan_led:
  assumes "execute_network_scan os pad config w = Some (Inr (out, w'))" and "options_ok config"
  shows "same_led w w'"
proof (cases "parse_cidr (os_inet_pton os) (Some (cidr_arg config))")
  case None
  with assms(1) show ?thesis by (auto simp: execute_network_scan_def intro: same_ledI)
next
  case (Some bc)
  obtain b c where bc: "bc = (b, c)" by (cases bc)
  note ok = scan_configs_ok [OF Some [unfolded bc] assms(2)]
  consider (ping) "mode config = ''ping''" | (tcp) "mode config = ''tcp''"
    | (other) "mode config \<noteq> ''ping''" "mode config \<noteq> ''tcp''" by blast
  then show ?thesis
  proof cases
    case ping
    then obtain q where "ping_session os pad (ping_config b c (scan_timeout config) config) w = Some (Inr (q, w'))"
      using assms(1) Some bc
      by (auto simp: execute_network_scan_def Let_def elim!: seq_InrE split: option.splits)
    then show ?thesis
      by (cases q) (auto intro: same_ledI elim!: ping_session_spec [OF ok(1)])
  next
    case tcp
    then obtain q where "tcp_session os (tcp_config b c (scan_timeout config) config) w = Some (Inr (q, w'))"
      using assms(1) Some bc
      by (auto simp: execute_network_scan_def Let_def elim!: seq_InrE split: option.splits)
    then show ?thesis
      by (cases q) (auto simp: same_led_def elim!: tcp_session_spec [OF ok(2)])
  next
    case other
    with assms(1) Some bc show ?thesis by (auto simp: execute_network_scan_def intro: same_ledI)
  qed
qed

lemma print_addresses_led: "print_addresses os config w = (out, w') \<Longrightarrow> led w' = led w"
  by (auto simp: print_addresses_def Let_def dest!: fetch_led split: option.splits prod.splits if_splits)

lemma run_main_led:
  assumes "run_main os pad events w = Some (Inr (out, w'))"
    and "\<And>config. argp_parse events Config_init = Inr config \<Longrightarrow> options_ok config"
  shows "same_led w w'"
proof (cases "argp_parse events Config_init")
  case (Inl status)
  with assms(1) show ?thesis by (simp add: run_main_def same_led_def)
next
  case (Inr config)
  with assms show ?thesis
    by (auto simp: run_main_def intro: same_ledI print_addresses_led handle_arp_mode_led execute_network_scan_led
        split: if_splits)
qed

text \<open>The exit status.\<close>

lemma run_main_status:
  assumes "run_main os pad events w = Some (Inr ((text, status), w'))"
  shows "status \<in> {0, 1, EX_USAGE} \<or> (\<exists>e\<in>set events. e = Exit status)"
proof (cases "argp_parse events Config_init")
  case (Inl st)
  have "argp_parse es c = Inl st \<Longrightarrow> st = EX_USAGE \<or> Exit st \<in> set es" for es c
    by (induction es c rule: argp_parse.induct) (auto split: parse_result.splits)
  from this [OF Inl] show ?thesis using Inl assms by (auto simp: run_main_def)
next
  case (Inr config)
  then show ?thesis using assms
    by (auto simp: run_main_def handle_arp_mode_def print_addresses_def execute_network_scan_def Let_def
        elim!: seq_InrE split: if_splits option.splits prod.splits)
qed

end
