(* ===== verification/Arp_Messages.thy ===== *)
theory Arp_Messages
  imports Arp_Table
begin

text \<open>
  What well-formed netlink messages mean: a writer of attributes, neighbour messages and datagrams
  as the kernel lays them out, and the proof that the parser of \<^verbatim>\<open>src/arp_table.cpp\<close> reads each of
  them back. The writers are specifications; nothing here models code.
\<close>

section \<open>Attributes\<close>

text \<open>
  The reference: a message as the kernel writes it, from the list of its attributes, each padded to
  four bytes; and what the attributes say, read as a list.
\<close>

type_synonym attr = "u16 \<times> u8 list"

definition pad4 :: "nat \<Rightarrow> u8 list" where
  "pad4 n = replicate ((n + 3) div 4 * 4 - n) 0"

definition put_attr :: "attr \<Rightarrow> u8 list" where
  "put_attr a = put_u16 (word_of_nat (4 + length (snd a))) @ put_u16 (fst a) @ snd a @ pad4 (length (snd a))"

definition put_attrs :: "attr list \<Rightarrow> u8 list" where
  "put_attrs as = concat (map put_attr as)"

fun attrs_value :: "attr list \<Rightarrow> u32 \<times> string \<Rightarrow> u32 \<times> string" where
  "attrs_value [] im = im"
| "attrs_value ((ty, p) # as) im =
     (if ty = NDA_DST then attrs_value as (ntohl (get_u32 (take 4 p)), snd im)
      else if ty = NDA_LLADDR then
        (if length p < 6 then im else attrs_value as (fst im, mac_string (take 6 p)))
      else attrs_value as im)"

definition attr_ok :: "attr \<Rightarrow> bool" where
  "attr_ok a \<longleftrightarrow> length (snd a) < 2 ^ 16 - 4 \<and> (fst a = NDA_DST \<longrightarrow> 4 \<le> length (snd a))"

lemma length_mac_string: "length (mac_string bs) = 3 * length bs - 1"
  by (induction bs rule: mac_string.induct) (simp_all add: hex2_def)

lemma mac_string_6: "length bs = 6 \<Longrightarrow> length (mac_string bs) = 17"
  by (simp add: length_mac_string)

lemma length_put_attr:
  "length (put_attr a) = (length (snd a) + 3) div 4 * 4 + 4"
  by (simp add: put_attr_def pad4_def c16.length_enc)

lemma rta_align_attr:
  "length p < 2 ^ 16 - 4 \<Longrightarrow> rta_align (word_of_nat (4 + length p)) = (length p + 3) div 4 * 4 + 4"
  by (simp add: rta_align_def unat_of_nat del: of_nat_add) presburger

lemma read_at: "length pre = off \<Longrightarrow> length x = n \<Longrightarrow> read_bytes (pre @ x @ post) off n = Some x"
  by (auto simp: read_bytes_def)

lemma rd_at:
  "length pre = off \<Longrightarrow> rd_u16 (pre @ put_u16 v @ post) off = Inr v"
  "length pre = off \<Longrightarrow> rd_u32 (pre @ put_u32 u @ post) off = Inr u"
  "length pre = off \<Longrightarrow> rd_u8 (pre @ put_u8 b @ post) off = Inr b"
  "length pre = off \<Longrightarrow> length x = n \<Longrightarrow> rd_bytes (pre @ x @ post) off n = Inr x"
  by (simp_all add: rd_u16_def rd_u32_def rd_u8_def rd_bytes_def read_at c16.length_enc c32.length_enc
      c8.length_enc c16.dec_enc c32.dec_enc c8.dec_enc)

lemma parse_put_attrs:
  assumes "list_all attr_ok as" and "length (put_attrs as) < 2 ^ 32"
    and "n = word_of_nat (length (put_attrs as))"
  shows "parse_netlink_attributes (pre @ put_attrs as @ post) (length pre) n im = Inr (attrs_value as im)"
  using assms
proof (induction as arbitrary: pre n im)
  case Nil
  obtain ip_v mac where "im = (ip_v, mac)" by (cases im)
  with Nil show ?case
    by (simp add: put_attrs_def sizeof_rtattr_def parse_netlink_attributes.simps [of _ _ _ ip_v mac])
next
  case (Cons a as)
  obtain ty p where a: "a = (ty, p)" by (cases a)
  obtain ip_v mac where im: "im = (ip_v, mac)" by (cases im)
  have ok: "length p < 2 ^ 16 - 4" "ty = NDA_DST \<Longrightarrow> 4 \<le> length p" "list_all attr_ok as"
    using Cons.prems(1) unfolding a list.pred_inject(2) attr_ok_def fst_conv snd_conv by simp_all
  have split: "put_attrs (a # as) = put_attr a @ put_attrs as" by (simp add: put_attrs_def)
  let ?k = "(length p + 3) div 4 * 4 + 4"
  have len: "length (put_attr a) = ?k" "length (put_attrs (a # as)) = ?k + length (put_attrs as)"
    unfolding split by (simp_all add: length_put_attr a)
  have n: "unat n = ?k + length (put_attrs as)"
    using Cons.prems(2) unfolding Cons.prems(3) len(2) [symmetric] by (simp add: unat_of_nat)
  obtain B where B: "B = pre @ put_attrs (a # as) @ post" by simp
  let ?L = "word_of_nat (4 + length p) :: u16"
  have L: "unat ?L = 4 + length p" using ok(1) by (simp add: unat_of_nat del: of_nat_add)
  have buf: "B = pre @ put_u16 ?L @ put_u16 ty @ p @ pad4 (length p) @ put_attrs as @ post"
    unfolding B split by (simp add: put_attr_def a)
  have r1: "rd_u16 B (length pre) = Inr ?L" unfolding buf by (rule rd_at) simp
  have r2: "rd_u16 B (length pre + 2) = Inr ty"
    unfolding buf using rd_at(1) [of "pre @ put_u16 ?L" "length pre + 2"] by (simp add: c16.length_enc)
  have r3: "rd_u32 B (length pre + 4) = Inr (get_u32 (take 4 p))" if "4 \<le> length p"
  proof -
    have "B = (pre @ put_u16 ?L @ put_u16 ty) @ take 4 p @ drop 4 p @ pad4 (length p) @ put_attrs as @ post"
      unfolding buf by simp
    then show ?thesis using that
      by (simp only: rd_u32_def) (subst read_at, auto simp: c16.length_enc)
  qed
  have r4: "rd_bytes B (length pre + 4) 6 = Inr (take 6 p)" if "6 \<le> length p"
  proof -
    have "B = (pre @ put_u16 ?L @ put_u16 ty) @ take 6 p @ drop 6 p @ pad4 (length p) @ put_attrs as @ post"
      unfolding buf by simp
    then show ?thesis using that
      by (simp only: rd_bytes_def) (subst read_at, auto simp: c16.length_enc)
  qed
  have IH: "parse_netlink_attributes B (length pre + rta_align ?L) (n - word_of_nat (rta_align ?L)) jm
      = Inr (attrs_value as jm)" for jm
  proof -
    have al: "rta_align ?L = length (put_attr a)" unfolding rta_align_attr [OF ok(1)] len(1) ..
    have "length (put_attrs as) < 2 ^ 32" using Cons.prems(2) len(2) by linarith
    moreover have "n - word_of_nat (length (put_attr a)) = word_of_nat (length (put_attrs as))"
      unfolding Cons.prems(3) split length_append of_nat_add by simp
    ultimately have "parse_netlink_attributes ((pre @ put_attr a) @ put_attrs as @ post)
        (length (pre @ put_attr a)) (n - word_of_nat (length (put_attr a))) jm = Inr (attrs_value as jm)"
      by (rule Cons.IH [OF ok(3)])
    then show ?thesis unfolding al B split by simp
  qed
  have cond: "\<not> unat n < sizeof_rtattr" "\<not> (unat ?L < sizeof_rtattr \<or> unat ?L > unat n)"
    unfolding n L sizeof_rtattr_def by auto
  have mac6: "length (mac_string (take 6 p)) = 17" if "6 \<le> length p" using that by (simp add: mac_string_6)
  have step: "parse_netlink_attributes B (length pre) n (ip_v, mac) =
      (if ty = NDA_DST then
         bindf (rd_u32 B (length pre + 4)) (\<lambda>addr. Inr (attrs_value as (ntohl addr, mac)))
       else if ty = NDA_LLADDR then
         (if unat ?L - 4 < 6 then Inr (ip_v, mac)
          else bindf (rd_bytes B (length pre + 4) 6) (\<lambda>bs.
            if length (mac_string bs) \<ge> 18 then Inr (ip_v, mac)
            else Inr (attrs_value as (ip_v, mac_string bs))))
       else Inr (attrs_value as (ip_v, mac)))"
    by (subst parse_netlink_attributes.simps) (simp only: r1 r2 bindf_simps cond IH Let_def if_False simp_thms)
  have v: "attrs_value (a # as) im = (if ty = NDA_DST then attrs_value as (ntohl (get_u32 (take 4 p)), mac)
      else if ty = NDA_LLADDR then
        (if length p < 6 then im else attrs_value as (ip_v, mac_string (take 6 p)))
      else attrs_value as im)"
    by (simp add: a im)
  show ?case
    unfolding B [symmetric] v unfolding im step L using ok(2) r3 r4 mac6 by auto
qed

section \<open>Messages\<close>

text \<open>A neighbour message, and what it adds to the table.\<close>

record neigh =
  n_flags :: u16
  n_seq :: u32
  n_pid :: u32
  n_ifindex :: u32
  n_state :: u16
  n_attrs :: "attr list"

definition neigh_len :: "neigh \<Rightarrow> nat" where
  "neigh_len n = 28 + length (put_attrs (n_attrs n))"

definition neigh_ok :: "neigh \<Rightarrow> bool" where
  "neigh_ok n \<longleftrightarrow> list_all attr_ok (n_attrs n) \<and> neigh_len n < 2 ^ 32"

definition put_neigh :: "neigh \<Rightarrow> u8 list" where
  "put_neigh n =
     put_u32 (word_of_nat (neigh_len n)) @ put_u16 RTM_NEWNEIGH @ put_u16 (n_flags n) @
     put_u32 (n_seq n) @ put_u32 (n_pid n) @
     put_u8 AF_INET_u8 @ replicate 3 0 @ put_u32 (n_ifindex n) @ put_u16 (n_state n) @ replicate 2 0 @
     put_attrs (n_attrs n)"

definition neigh_step :: "'w os \<Rightarrow> neigh \<Rightarrow> ArpEntry list \<times> 'w world \<Rightarrow> ArpEntry list \<times> 'w world" where
  "neigh_step os n ew =
     (let (ip_v, mac) = attrs_value (n_attrs n) (0, no_mac) in
      if ip_v = 0 \<or> n_state n AND NUD_INCOMPLETE \<noteq> 0 \<or> mac = no_mac \<or>
         0xE0000000 \<le> ip_v \<and> ip_v \<le> 0xEFFFFFFF \<or> ip_v = 0xFFFFFFFF
      then ew
      else
        let (found, w1) = on_env (os_if_indextoname os (n_ifindex n)) (snd ew)
        in (fst ew @ [\<lparr>arp_ip = ip_v, mac_address = mac, interface_index = sint (n_ifindex n),
              iface_name = (case found of Some s \<Rightarrow> s | None \<Rightarrow> ''unknown'')\<rparr>], w1))"

lemmas enc_lengths = c8.length_enc c16.length_enc c32.length_enc

lemma length_put_neigh: "length (put_neigh n) = neigh_len n"
  by (simp add: put_neigh_def neigh_len_def enc_lengths)

lemma rd_neigh:
  fixes pre post :: "u8 list"
  defines "B n \<equiv> pre @ put_neigh n @ post"
  shows "rd_u32 (B n) (length pre) = Inr (word_of_nat (neigh_len n))"
    and "rd_u16 (B n) (length pre + 4) = Inr RTM_NEWNEIGH"
    and "rd_u8 (B n) (length pre + 16) = Inr AF_INET_u8"
    and "rd_u32 (B n) (length pre + 16 + 4) = Inr (n_ifindex n)"
    and "rd_u16 (B n) (length pre + 16 + 8) = Inr (n_state n)"
proof -
  let ?len = "put_u32 (word_of_nat (neigh_len n))"
  let ?hdr = "?len @ put_u16 RTM_NEWNEIGH @ put_u16 (n_flags n) @ put_u32 (n_seq n) @ put_u32 (n_pid n)"
  let ?fam = "put_u8 AF_INET_u8 @ replicate 3 0"
  note defs = B_def put_neigh_def
  show "rd_u32 (B n) (length pre) = Inr (word_of_nat (neigh_len n))"
    unfolding defs append_assoc by (rule rd_at) simp
  show "rd_u16 (B n) (length pre + 4) = Inr RTM_NEWNEIGH"
    using rd_at(1) [of "pre @ ?len" "length pre + 4"] unfolding defs by (simp add: enc_lengths)
  show "rd_u8 (B n) (length pre + 16) = Inr AF_INET_u8"
    using rd_at(3) [of "pre @ ?hdr" "length pre + 16"] unfolding defs by (simp add: enc_lengths)
  show "rd_u32 (B n) (length pre + 16 + 4) = Inr (n_ifindex n)"
    using rd_at(2) [of "pre @ ?hdr @ ?fam" "length pre + 16 + 4"] unfolding defs by (simp add: enc_lengths)
  show "rd_u16 (B n) (length pre + 16 + 8) = Inr (n_state n)"
    using rd_at(1) [of "pre @ ?hdr @ ?fam @ put_u32 (n_ifindex n)" "length pre + 16 + 8"]
    unfolding defs by (simp add: enc_lengths)
qed

lemma parse_put_neigh:
  assumes "neigh_ok n"
  shows "parse_netlink_message os (pre @ put_neigh n @ post) (length pre) fd ew
    = Inr (True, neigh_step os n ew)"
proof -
  obtain B where B: "B = pre @ put_neigh n @ post" by simp
  let ?as = "n_attrs n"
  obtain hd28 where hd28: "put_neigh n = hd28 @ put_attrs ?as" "length hd28 = 28"
    by (rule that [of "take 28 (put_neigh n)"]) (simp_all add: put_neigh_def enc_lengths)
  have len: "neigh_len n = 28 + length (put_attrs ?as)" by (simp add: neigh_len_def)
  have at: "parse_netlink_attributes B (length pre + 16 + 12) (word_of_nat (neigh_len n) - word_of_nat (16 + 12)) im
      = Inr (attrs_value ?as im)" for im
    using parse_put_attrs [of ?as "word_of_nat (length (put_attrs ?as))" "pre @ hd28" post im] assms hd28
    by (simp add: B neigh_ok_def len add.assoc)
  note rd = rd_neigh [of pre n post, folded B]
  have ne: "RTM_NEWNEIGH \<noteq> NLMSG_DONE" "RTM_NEWNEIGH \<noteq> NLMSG_ERROR"
    by (simp_all add: RTM_NEWNEIGH_def NLMSG_DONE_def NLMSG_ERROR_def)
  obtain es w where ew: "ew = (es, w)" by (cases ew)
  obtain ip_v mac where im: "attrs_value ?as (0, no_mac) = (ip_v, mac)" by (metis surj_pair)
  show ?thesis
    unfolding B [symmetric] ew
    by (auto simp: parse_netlink_message_def neigh_step_def sizeof_nlmsghdr_def sizeof_ndmsg_def rd rd [simplified] ne Let_def
        at [simplified] im
        multicast_first_byte split: prod.splits)
qed


section \<open>Datagrams\<close>

text \<open>
  A datagram of neighbour messages, as the dump sends them: the walk takes them in order and keeps
  the socket open. What an earlier, longer datagram left behind in the buffer is not read.
\<close>

definition put_neighs :: "neigh list \<Rightarrow> u8 list" where
  "put_neighs ns = concat (map put_neigh ns)"

lemma length_put_attrs_aligned: "4 dvd length (put_attrs as)"
  by (induction as) (auto simp: put_attrs_def length_put_attr intro: dvd_add)

lemma nlmsg_align_neigh:
  assumes "neigh_len n < 2 ^ 32"
  shows "nlmsg_align (word_of_nat (neigh_len n)) = word_of_nat (neigh_len n)"
    (is "nlmsg_align ?x = ?x")
proof -
  have d: "4 dvd neigh_len n" unfolding neigh_len_def by (intro dvd_add length_put_attrs_aligned) simp
  then obtain k where k: "neigh_len n = 4 * k" by blast
  have x: "?x = push_bit 2 (word_of_nat k)" by (simp add: k push_bit_eq_mult)
  have m: "(3 :: u32) = mask 2" by (simp add: mask_eq_exp_minus_1)
  have "?x + mask 2 = ?x OR mask 2"
    by (subst disjunctive_add) (auto simp: x bit_simps)
  moreover have "(?x OR mask 2) AND NOT (mask 2) = ?x"
    by (rule bit_word_eqI) (auto simp: x bit_simps)
  ultimately show ?thesis unfolding nlmsg_align_def m by simp
qed

lemma walk_put_neighs:
  assumes "list_all neigh_ok ns" and "length (put_neighs ns) + k < 2 ^ 32"
  shows "walk_messages os (pre @ put_neighs ns @ post) fd (length pre)
      (word_of_nat (length (put_neighs ns) + k)) ew =
    walk_messages os (pre @ put_neighs ns @ post) fd (length pre + length (put_neighs ns))
      (word_of_nat k) (fold (neigh_step os) ns ew)"
  using assms
proof (induction ns arbitrary: pre ew)
  case Nil
  then show ?case by (simp add: put_neighs_def)
next
  case (Cons n ns)
  have ok: "neigh_ok n" "neigh_len n < 2 ^ 32" "list_all neigh_ok ns"
    using Cons.prems(1) unfolding list.pred_inject(2) by (simp_all, simp add: neigh_ok_def)
  have split: "put_neighs (n # ns) = put_neigh n @ put_neighs ns" by (simp add: put_neighs_def)
  have total: "length (put_neighs (n # ns)) = neigh_len n + length (put_neighs ns)"
    unfolding split by (simp add: length_put_neigh)
  obtain B where B: "B = pre @ put_neighs (n # ns) @ post" by simp
  obtain R :: u32 where R: "R = word_of_nat (length (put_neighs (n # ns)) + k)" by simp
  let ?L = "word_of_nat (neigh_len n) :: u32"
  have r: "unat R = neigh_len n + (length (put_neighs ns) + k)"
    using Cons.prems(2) unfolding R add.assoc [symmetric] total [symmetric]
    by (simp add: unat_of_nat del: of_nat_add)
  have L: "unat ?L = neigh_len n" using ok(2) by (simp add: unat_of_nat)
  have B1: "B = pre @ put_neigh n @ put_neighs ns @ post" unfolding B split by simp
  have r1: "rd_u32 B (length pre) = Inr ?L" unfolding B1 by (rule rd_neigh)
  have r2: "parse_netlink_message os B (length pre) fd ew = Inr (True, neigh_step os n ew)"
    unfolding B1 by (rule parse_put_neigh [OF ok(1)])
  have cond: "\<not> unat R < sizeof_nlmsghdr" "\<not> (unat ?L < sizeof_nlmsghdr \<or> unat ?L > unat R)"
    unfolding r L sizeof_nlmsghdr_def by (auto simp: neigh_len_def)
  have lt: "length (put_neighs ns) + k < 2 ^ 32" using Cons.prems(2) total by linarith
  have d: "R - ?L = word_of_nat (length (put_neighs ns) + k)" unfolding R total of_nat_add by simp
  have IH: "walk_messages os B fd (length pre + neigh_len n) (R - ?L) jw =
      walk_messages os B fd (length pre + (neigh_len n + length (put_neighs ns))) (word_of_nat k)
        (fold (neigh_step os) ns jw)" for jw
    using Cons.IH [OF ok(3) lt, of "pre @ put_neigh n" jw] unfolding B1 d
    by (simp add: length_put_neigh add.assoc)
  show ?case
    unfolding B [symmetric] R [symmetric] unfolding total
    by (subst walk_messages.simps)
      (simp only: cond cond [unfolded L] r1 r2 seq_simps nlmsg_align_neigh [OF ok(2)] L IH if_False prod.case
        simp_thms fold_Cons o_apply)
qed

section \<open>A whole dump\<close>

text \<open>
  The message that ends a dump, and a dump that fits one datagram: the table is what the messages
  say, and the socket is closed.
\<close>

definition put_done :: "u32 \<Rightarrow> u32 \<Rightarrow> u8 list" where
  "put_done sq pid = put_u32 20 @ put_u16 NLMSG_DONE @ put_u16 2 @ put_u32 sq @ put_u32 pid @ put_u32 0"

lemma length_put_done [simp]: "length (put_done sq pid) = 20"
  by (simp add: put_done_def enc_lengths)

lemma walk_put_done:
  "walk_messages os (pre @ put_done sq pid @ post) fd (length pre) 20 (es, w)
    = Some (Inr (False, es, sys_close os fd w))"
proof -
  let ?B = "pre @ put_done sq pid @ post"
  have r1: "rd_u32 ?B (length pre) = Inr 20"
    unfolding put_done_def append_assoc by (rule rd_at) simp
  have r2: "rd_u16 ?B (length pre + 4) = Inr NLMSG_DONE"
    using rd_at(1) [of "pre @ put_u32 20" "length pre + 4"] unfolding put_done_def by (simp add: enc_lengths)
  have "parse_netlink_message os ?B (length pre) fd (es, w) = Inr (False, es, sys_close os fd w)"
    by (simp add: parse_netlink_message_def r2)
  then show ?thesis
    by (subst walk_messages.simps) (simp add: r1 sizeof_nlmsghdr_def)
qed

lemma receive_dump:
  assumes recv: "os_recvmsg os fd (length buf) (env w)
      = ((int (length d), e, False, d), v)"
    and d: "d = put_neighs ns @ put_done sq pid" and ok: "list_all neigh_ok ns" and fit: "length d < 2 ^ 32"
  shows "receive_table os fd buf (es, w) =
    (let (es1, w1) = fold (neigh_step os) ns (es, w\<lparr>env := v\<rparr>) in Some (Inr (es1, sys_close os fd w1)))"
proof -
  obtain es1 w1 where f: "fold (neigh_step os) ns (es, w\<lparr>env := v\<rparr>) = (es1, w1)" by (metis surj_pair)
  let ?B = "fill_buffer buf d"
  have B: "?B = [] @ put_neighs ns @ (put_done sq pid @ drop (length d) buf)"
    by (simp add: fill_buffer_def d)
  have "walk_messages os ?B fd 0 (word_of_nat (length (put_neighs ns) + 20)) (es, w\<lparr>env := v\<rparr>)
      = walk_messages os ?B fd (length (put_neighs ns)) 20 (es1, w1)"
    using walk_put_neighs [OF ok, of 20 os "[]" "put_done sq pid @ drop (length d) buf" fd] fit
    unfolding B by (simp add: d f)
  also have "\<dots> = Some (Inr (False, es1, sys_close os fd w1))"
    using walk_put_done [of os "put_neighs ns" sq pid "drop (length d) buf" fd es1 w1]
    by (simp add: fill_buffer_def d)
  finally have walk: "walk_messages os ?B fd 0 (word_of_nat (length d)) (es, w\<lparr>env := v\<rparr>)
      = Some (Inr (False, es1, sys_close os fd w1))" by (simp add: d)
  have "on_env (os_recvmsg os fd (length buf)) w = ((int (length d), e, False, d), w\<lparr>env := v\<rparr>)"
    by (simp add: on_env_def recv)
  then show ?thesis
    by (subst receive_table.simps) (simp add: walk f Let_def)
qed

lemma get_arp_table_dump:
  assumes "sys_call os (Socket Netlink_socket) w = ((fd, e1), w1)" and "0 \<le> fd"
    and "sys_call os (Send fd neighbour_request) w1 = ((sent, e2), w2)" and "0 \<le> sent"
    and "os_recvmsg os fd rx_buf_size (env w2) = ((int (length d), e3, False, d), v)"
    and "d = put_neighs ns @ put_done sq pid" and "list_all neigh_ok ns" and "length d \<le> rx_buf_size"
  shows "get_arp_table os w =
    (let (es, w3) = fold (neigh_step os) ns ([], w2\<lparr>env := v\<rparr>) in Some (Inr (es, sys_close os fd w3)))"
proof -
  have "get_arp_table os w = receive_table os fd (replicate rx_buf_size 0) ([], w2)"
    using assms(1-4) by (simp add: get_arp_table_def)
  moreover have "length d < 2 ^ 32" using assms(8) by (simp add: rx_buf_size_def)
  ultimately show ?thesis
    using receive_dump [of os fd "replicate rx_buf_size 0" w2 d e3 v ns sq pid] assms(5-7) by simp
qed

end
