(* ===== verification/Tcp_Ends.thy ===== *)
theory Tcp_Ends
  imports Tcp_Run
begin

text \<open>
  Why a TCP scan ends when the clock advances. The potential \<open>tcp_load\<close> counts the hosts that are still
  to come and, with \<open>load\<close>, the time that the probes in flight may still take: starting a connection
  lowers it by what the host paid in advance, handling an event and reaping take probes out of it, and a
  sweep that finds probes ages those it leaves.
\<close>

section \<open>The potential, operation by operation\<close>

context advancing_clock
begin

definition tcp_load :: "tcp_scanner \<Rightarrow> 'w tcp_state \<Rightarrow> nat" where
  "tcp_load s st =
     (total_hosts s - t_next_host_idx st) * (nat (timeout_ns (timeout_ms s)) + 2) +
     load (timeout_ms s) (time (t_world st)) (t_probe_table st)"

lemma time_set_buffer: "time w \<le> time (set_buffer os fd opt n what w)"
proof -
  obtain r e w1 where c: "sys_call os (Setsockopt fd opt n) w = ((r, e), w1)" by (metis surj_pair)
  have "time w1 \<le> time (snd (sys_call os (Perror what) w1))" by simp
  with time_sys_call [OF c] have "time w \<le> time (snd (sys_call os (Perror what) w1))" by linarith
  with time_sys_call [OF c] show ?thesis by (simp add: set_buffer_def c)
qed

lemma time_connect:
  assumes "connect_socket os s target slot w = Inr (q, w')"
  shows "time w \<le> time w'"
proof -
  obtain fd e0 w1 where c1: "sys_call os (Socket Tcp_socket) w = ((fd, e0), w1)" by (metis surj_pair)
  define n where "n = the (tcp_buf_size s)"
  define w2 where "w2 = set_buffer os fd SO_SNDBUF n ''setsockopt(SO_SNDBUF)'' w1"
  define w3 where "w3 = set_buffer os fd SO_RCVBUF n ''setsockopt(SO_RCVBUF)'' w2"
  obtain flags e1 w4 where c4: "sys_call os (Fcntl_getfl fd) w3 = ((flags, e1), w4)" by (metis surj_pair)
  obtain r2 e2 w5 where c5: "sys_call os (Fcntl_setfl fd (word_of_int flags OR O_NONBLOCK)) w4 = ((r2, e2), w5)"
    by (metis surj_pair)
  obtain res e3 w6 where c6: "sys_call os (Connect fd (htonl target) (htons (target_port s))) w5 = ((res, e3), w6)"
    by (metis surj_pair)
  obtain r4 e4 w7 where c7: "sys_call os (Epoll_ctl (epoll_fd s) EPOLL_CTL_ADD fd
      (Some \<lparr>ep_events = EPOLLOUT OR EPOLLERR OR EPOLLHUP, ep_data = word_of_int slot\<rparr>)) w6 = ((r4, e4), w7)"
    by (metis surj_pair)
  have "time w1 \<le> time w2" "time w2 \<le> time w3" unfolding w2_def w3_def by (rule time_set_buffer)+
  note t = time_sys_call [OF c1] this time_sys_call [OF c4] time_sys_call [OF c5] time_sys_call [OF c6]
    time_sys_call [OF c7]
  have "w' \<in> {w1, w7} \<union> sys_close os fd ` {w4, w5, w6, w7}"
  proof (cases "tcp_buf_size s")
    case None
    with assms show ?thesis by (auto simp: connect_socket_def c1 split: if_splits)
  next
    case (Some m)
    then have m: "m = n" by (simp add: n_def)
    show ?thesis
      using assms Some unfolding connect_socket_def Let_def c1 prod.case Some option.case m
        w2_def [symmetric] w3_def [symmetric] c4 c5 c6 c7
      by (auto split: if_splits)
  qed
  then consider "w' = w1" | "w' = w7" | x where "x \<in> {w4, w5, w6, w7}" "w' = sys_close os fd x" by blast
  then show ?thesis
  proof cases
    case (3 x)
    have "time w \<le> time x" using 3(1) t by (elim insertE emptyE; hypsubst; linarith)
    then show ?thesis unfolding 3(2) using time_close [of x fd] by (rule order_trans)
  qed (use t in simp)+
qed

text \<open>Starting connections pays for each host that is passed by.\<close>

lemma initiate_load:
  assumes "initiate_single_connection os s st = Inr (b, st1)" and "tcp_inv s d0 st"
    and "t_next_host_idx st < total_hosts s" and "max_probes s < 2 ^ 31"
  shows "time (t_world st) \<le> time (t_world st1)" and "b \<Longrightarrow> tcp_load s st1 < tcp_load s st"
    and "\<not> b \<Longrightarrow> st1 = st \<and> max_probes s \<le> t_active_probes st"
proof -
  let ?T = "nat (timeout_ns (timeout_ms s))"
  have len: "length (t_probe_table st) = max_probes s" using assms(2) by (simp add: tcp_inv_def)
  let ?rest = "(total_hosts s - Suc (t_next_host_idx st)) * (?T + 2)"
  have "(total_hosts s - t_next_host_idx st) * (?T + 2) = ?rest + (?T + 2)"
    using assms(3) by (metis Suc_diff_Suc add.commute mult_Suc)
  then have next_h: "tcp_load s st = ?rest + (?T + 2) + load (timeout_ms s) (time (t_world st)) (t_probe_table st)"
    by (simp only: tcp_load_def)
  let ?goal = "time (t_world st) \<le> time (t_world st1) \<and> (b \<longrightarrow> tcp_load s st1 < tcp_load s st) \<and>
    (\<not> b \<longrightarrow> st1 = st \<and> max_probes s \<le> t_active_probes st)"
  consider (skip) "b" "st1 = st\<lparr>t_next_host_idx := Suc (t_next_host_idx st)\<rparr>"
    | (full) "\<not> b" "st1 = st" "count_active (t_probe_table st) = length (t_probe_table st)"
    | (drop) w where "b" "st1 = st\<lparr>t_next_host_idx := Suc (t_next_host_idx st), t_world := w\<rparr>"
        "time (t_world st) \<le> time w"
    | (conn) w i p where "b" "st1 = st\<lparr>t_next_host_idx := Suc (t_next_host_idx st), t_world := w,
           t_probe_table := (t_probe_table st)[i := p], t_active_probes := size_add (t_active_probes st) 1\<rparr>"
        "i < length (t_probe_table st)" "\<not> active (t_probe_table st ! i)" "active p"
        "time (t_world st) \<le> time w" "ns_of (send_time p) < time w"
  proof (rule initiate_split [OF assms(1)], goal_cases Len Full Skip Drop Conn)
    case Len
    with assms(4) len show ?case by simp
  next
    case Full
    then show ?case by (auto simp: count_active_all)
  next
    case Skip
    then show ?case by blast
  next
    case (Drop w slot)
    with time_connect [OF Drop(7)] show ?case by blast
  next
    case (Conn w w1 slot i fd ts)
    have "time (t_world st) \<le> time w1" "ns_of ts < time w1"
      using time_connect [OF Conn(10)] time_reading [OF Conn(11)] by linarith+
    with Conn show ?case by simp
  qed
  then have ?goal
  proof cases
    case skip
    then have "tcp_load s st1 = ?rest + load (timeout_ms s) (time (t_world st)) (t_probe_table st)"
      by (simp add: tcp_load_def)
    with skip next_h show ?thesis by simp
  next
    case full
    then show ?thesis using len assms(2) by (simp add: tcp_inv_def)
  next
    case (drop w)
    then have "tcp_load s st1 = ?rest + load (timeout_ms s) (time w) (t_probe_table st)"
      by (simp add: tcp_load_def)
    with drop next_h load_mono [OF drop(3), of "timeout_ms s" "t_probe_table st"] show ?thesis by simp
  next
    case (conn w i p)
    have "load (timeout_ms s) (time w) ((t_probe_table st)[i := p])
        = weight (timeout_ms s) (time w) p + load (timeout_ms s) (time w) (t_probe_table st)"
      using conn by (intro load_occupy)
    also have "\<dots> \<le> Suc ?T + load (timeout_ms s) (time (t_world st)) (t_probe_table st)"
      by (intro add_mono weight_new load_mono conn)
    finally have "load (timeout_ms s) (time w) ((t_probe_table st)[i := p])
        \<le> Suc ?T + load (timeout_ms s) (time (t_world st)) (t_probe_table st)" .
    moreover have "tcp_load s st1 = ?rest + load (timeout_ms s) (time w) ((t_probe_table st)[i := p])"
      using conn(2) by (simp add: tcp_load_def)
    ultimately show ?thesis using next_h conn by simp
  qed
  then show "time (t_world st) \<le> time (t_world st1)" "b \<Longrightarrow> tcp_load s st1 < tcp_load s st"
    "\<not> b \<Longrightarrow> st1 = st \<and> max_probes s \<le> t_active_probes st" by blast+
qed

lemma initiate_connections_load:
  assumes "initiate_connections os s n st = Inr st'" and "scanner_ok s" and "tcp_inv s d0 st"
    and "max_probes s < 2 ^ 31"
  defines "go \<equiv> t_next_host_idx st < total_hosts s \<and> t_active_probes st < max_probes s \<and> n < batch_size s"
  shows "time (t_world st) \<le> time (t_world st') \<and> (if go then tcp_load s st' < tcp_load s st else st' = st)"
  using assms(1,3) unfolding go_def
proof (induction "total_hosts s - t_next_host_idx st" arbitrary: n st rule: less_induct)
  case less
  show ?case
  proof (cases "t_next_host_idx st < total_hosts s \<and> t_active_probes st < max_probes s \<and> n < batch_size s")
    case False
    with less.prems(1) show ?thesis by (subst (asm) initiate_connections.simps) auto
  next
    case True
    then obtain b st1 where one: "initiate_single_connection os s st = Inr (b, st1)"
      using less.prems(1) by (subst (asm) initiate_connections.simps) (auto split: sum.splits)
    note L = initiate_load [OF one less.prems(2) conjunct1 [OF True] assms(4)]
    then have b: b using True by auto
    note one = one [simplified b]
    have rest: "initiate_connections os s (Suc n) st1 = Inr st'"
      using less.prems(1) True one initiate_next [OF one] by (subst (asm) initiate_connections.simps) simp
    have "total_hosts s - t_next_host_idx st1 < total_hosts s - t_next_host_idx st"
      unfolding initiate_next [OF one] using True by (intro diff_less_mono2) auto
    from less.hyps [OF this rest initiate_single_connection_inv [OF assms(2) less.prems(2) _ one]] L b True
    show ?thesis by (auto split: if_splits)
  qed
qed

lemma report_open_keeps [simp]:
  "t_probe_table (snd (report_open os s p d (buf, st))) = t_probe_table st"
  "t_next_host_idx (snd (report_open os s p d (buf, st))) = t_next_host_idx st"
  "t_active_probes (snd (report_open os s p d (buf, st))) = t_active_probes st"
  by (simp_all add: report_open_def Let_def split: prod.splits)

lemma report_open_time: "time (t_world st) \<le> time (t_world (snd (report_open os s p d (buf, st))))"
  by (auto simp: report_open_def Let_def dest: time_resolve split: prod.splits if_splits)

lemma tcp_load_mono:
  assumes "t_probe_table st' = t_probe_table st" "t_next_host_idx st' = t_next_host_idx st"
    and "time (t_world st) \<le> time (t_world st')"
  shows "tcp_load s st' \<le> tcp_load s st"
  using load_mono [OF assms(3)] by (simp add: tcp_load_def assms(1,2))

text \<open>Handling events and reaping takes probes out.\<close>

lemma drop_probe_load:
  assumes "i < length (t_probe_table st)" "active (t_probe_table st ! i)" and "time (t_world st) \<le> time w"
  shows "tcp_load s (drop_probe i w st) < tcp_load s st"
proof -
  have "load (timeout_ms s) (time w) ((t_probe_table st)[i := (t_probe_table st ! i)\<lparr>active := False\<rparr>])
      < load (timeout_ms s) (time w) (t_probe_table st)"
    using load_clear [OF assms(1,2), of "(t_probe_table st ! i)\<lparr>active := False\<rparr>"] by (simp add: weight_def)
  also have "\<dots> \<le> load (timeout_ms s) (time (t_world st)) (t_probe_table st)" by (rule load_mono [OF assms(3)])
  finally show ?thesis by (simp add: tcp_load_def drop_probe_def)
qed

lemma poll_one_load:
  assumes "poll_one os s ev (buf, st) = Inr (buf', st')"
  shows "time (t_world st) \<le> time (t_world st') \<and> (st' = st \<or> tcp_load s st' < tcp_load s st)"
proof -
  let ?i = "unat (ep_data ev)"
  let ?p = "t_probe_table st ! ?i"
  show ?thesis
  proof (cases "?i < length (t_probe_table st) \<and> active ?p")
    case False
    then show ?thesis using assms by (auto simp: poll_one_def Let_def split: if_splits)
  next
    case True
    obtain r e v w1 where g: "on_env (os_getsockopt_error os (tcp_sock ?p)) (t_world st) = ((r, e, v), w1)"
      by (metis surj_pair)
    obtain now w4 where c: "on_env (os_clock_gettime os) (sys_close os (tcp_sock ?p)
        (snd (sys_call os (Epoll_ctl (epoll_fd s) EPOLL_CTL_DEL (tcp_sock ?p) None) w1))) = (now, w4)" (is "on_env _ ?w3 = _")
      by (metis surj_pair)
    have t: "time (t_world st) \<le> time w4"
      using time_dests(5) [OF g] time_sys_call' [of w1 "Epoll_ctl (epoll_fd s) EPOLL_CTL_DEL (tcp_sock ?p) None"]
        time_close [of "snd (sys_call os (Epoll_ctl (epoll_fd s) EPOLL_CTL_DEL (tcp_sock ?p) None) w1)" "tcp_sock ?p"]
        time_clock [OF c] by linarith
    note drop = drop_probe_load [OF conjunct1 [OF True] conjunct2 [OF True] t, of s]
    obtain d where d: "diff_ns now (send_time ?p) = Some d"
      and st': "st' = drop_probe ?i w4 st \<or> st' = snd (report_open os s ?p d (buf, drop_probe ?i w4 st))"
      using assms poll_one_active [OF refl _ refl _ g c, of buf] True by (auto split: option.splits if_splits)
    have w: "t_world (drop_probe ?i w4 st) = w4" by (simp add: drop_probe_def)
    have "time w4 \<le> time (t_world st') \<and> tcp_load s st' \<le> tcp_load s (drop_probe ?i w4 st)"
      using st'
    proof
      assume "st' = snd (report_open os s ?p d (buf, drop_probe ?i w4 st))"
      with report_open_time [of "drop_probe ?i w4 st"] w show ?thesis by (auto intro: tcp_load_mono)
    qed (simp add: w)
    with t drop show ?thesis by linarith
  qed
qed

lemma poll_all_load:
  "poll_all os s evs (buf, st) = Inr (buf', st') \<Longrightarrow>
    time (t_world st) \<le> time (t_world st') \<and> (t_active_probes st' = t_active_probes st \<and> tcp_load s st' \<le> tcp_load s st \<or>
      tcp_load s st' < tcp_load s st)"
proof (induction evs arbitrary: buf st)
  case (Cons ev evs)
  then obtain buf1 st1 where one: "poll_one os s ev (buf, st) = Inr (buf1, st1)"
    and rest: "poll_all os s evs (buf1, st1) = Inr (buf', st')" by (auto split: sum.splits)
  from poll_one_load [OF one] Cons.IH [OF rest] show ?case by auto
qed simp

lemma poll_connections_load:
  assumes "poll_connections os s st = Inr st'"
  shows "time (t_world st) \<le> time (t_world st') \<and> (t_active_probes st' = t_active_probes st \<and> tcp_load s st' \<le> tcp_load s st \<or>
      tcp_load s st' < tcp_load s st)"
proof -
  obtain c e evs w where
    call: "on_env (os_epoll_wait os (epoll_fd s) (nat (cast_int (batch_size s))) EPOLL_TIMEOUT_MS) (t_world st) = ((c, e, evs), w)"
    by (metis surj_pair)
  have t: "time (t_world st) \<le> time w" by (rule time_on_env [OF call epoll_wait_time])
  have "tcp_load s (st\<lparr>t_world := w\<rparr>) \<le> tcp_load s st" using t by (intro tcp_load_mono) simp_all
  moreover obtain buf' where "poll_all os s (take (nat c) evs) ([], st\<lparr>t_world := w\<rparr>) = Inr (buf', st')"
    using assms call by (auto simp: poll_connections_def Let_def split: if_splits sum.splits)
  note poll_all_load [OF this]
  ultimately show ?thesis using t by auto
qed

lemma load_expire:
  assumes "n \<le> ns_of t" and "ns_of t < n'"
  shows "load (timeout_ms s) n' (map (expire s t) ps) \<le> load (timeout_ms s) n ps \<and>
    (0 < count_active ps \<longrightarrow> load (timeout_ms s) n' (map (expire s t) ps) < load (timeout_ms s) n ps)"
proof (induction ps)
  case (Cons p ps)
  consider "\<not> active p" | "active p" "timeout_ns (timeout_ms s) < ns_of t - ns_of (send_time p)"
    | "active p" "ns_of t - ns_of (send_time p) \<le> timeout_ns (timeout_ms s)" by linarith
  then show ?case
  proof cases
    case 3
    from weight_ages [OF 3(2) assms] 3 Cons show ?thesis
      by (simp add: load_def expire_def count_active_def)
  qed (use Cons in \<open>simp_all add: load_def expire_def count_active_def weight_def\<close>)
qed (simp add: load_def count_active_def)

lemma time_reap_slots: "tcp_reap_slots os s t is st = Inr st' \<Longrightarrow> time (t_world st) \<le> time (t_world st')"
proof (induction "is" arbitrary: st)
  case (Cons i rest)
  then obtain st1 where one: "tcp_reap_slot os s t i st = Inr st1" and rest: "tcp_reap_slots os s t rest st1 = Inr st'"
    by (auto split: sum.splits)
  have "time (t_world st) \<le> time (sys_close os fd (snd (sys_call os q (t_world st))))" for fd q
    using time_sys_call' [of "t_world st" q] time_close [of "snd (sys_call os q (t_world st))" fd] by linarith
  then have "time (t_world st) \<le> time (t_world st1)"
    using one by (auto simp: tcp_reap_slot_def Let_def split: if_splits option.splits)
  with Cons.IH [OF rest] show ?case by linarith
qed simp

lemma tcp_reap_load:
  assumes "tcp_reap_timed_out_probes os s st = Inr st'" and "tcp_inv s d0 st"
  shows "tcp_load s st' \<le> tcp_load s st \<and> (0 < t_active_probes st \<longrightarrow> tcp_load s st' < tcp_load s st)"
proof -
  obtain t w where c: "on_env (os_clock_gettime os) (t_world st) = (t, w)" by (metis surj_pair)
  then have run: "tcp_reap_slots os s t [0..<length (t_probe_table (st\<lparr>t_world := w\<rparr>))] (st\<lparr>t_world := w\<rparr>) = Inr st'"
    using assms(1) by (simp add: tcp_reap_timed_out_probes_def)
  note T = tcp_reap_table [OF run]
  have "ns_of t < time (t_world st')" using time_reading(2) [OF c] time_reap_slots [OF run] by simp
  from load_expire [OF time_reading(1) [OF c] this, of s "t_probe_table st"] T assms(2) show ?thesis
    by (auto simp: tcp_load_def tcp_inv_def)
qed

lemma tcp_run_loop_returns:
  assumes "scanner_ok s" and "max_probes s < 2 ^ 31" and "0 < max_probes s" and "0 < batch_size s" and "tcp_inv s d0 st"
  shows "\<exists>r. tcp_run_loop os s st = Some r"
  using assms(5)
proof (induction "tcp_load s st" arbitrary: st rule: less_induct)
  case less
  show ?case
  proof (cases "t_next_host_idx st < total_hosts s \<or> t_active_probes st > 0")
    case False
    then show ?thesis by (subst tcp_run_loop.simps) auto
  next
    case True
    show ?thesis
    proof (cases "initiate_connections os s 0 st")
      case (Inl e)
      with True show ?thesis by (subst tcp_run_loop.simps) auto
    next
      case st1: (Inr st1)
      note I1 = initiate_connections_inv [OF assms(1) less.prems st1]
      note L1 = initiate_connections_load [OF st1 assms(1) less.prems assms(2)]
      show ?thesis
      proof (cases "poll_connections os s st1")
        case (Inl e)
        with True st1 show ?thesis by (subst tcp_run_loop.simps) auto
      next
        case st2: (Inr st2)
        note I2 = poll_connections_inv [OF I1 st2]
        note L2 = poll_connections_load [OF st2]
        show ?thesis
        proof (cases "tcp_reap_timed_out_probes os s st2")
          case (Inl e)
          with True st1 st2 show ?thesis by (subst tcp_run_loop.simps) auto
        next
          case st3: (Inr st3)
          have "tcp_load s st3 < tcp_load s st"
            using L1 L2 tcp_reap_load [OF st3 I2] True assms(3,4) by (auto split: if_splits)
          from less.hyps [OF this tcp_reap_inv [OF I2 st3]] True st1 st2 st3 show ?thesis
            by (subst tcp_run_loop.simps) auto
        qed
      qed
    qed
  qed
qed

lemma tcp_session_returns:
  assumes "tcp_config_ok config" and "0 < tcfg_max_probes config" and "0 < tcfg_batch_size config"
  shows "\<exists>r. tcp_session os config w = Some r"
proof -
  obtain t0 w0 where c: "on_env (os_clock_gettime os) w = (t0, w0)" by (metis surj_pair)
  obtain r w1 where new: "TcpScanner_new os config w0 = (r, w1)" by (metis surj_pair)
  show ?thesis
  proof (cases r)
    case (Inl e)
    then show ?thesis by (simp add: tcp_session_def c new)
  next
    case (Inr sst)
    obtain s st where r: "r = Inr (s, st)" using Inr by (cases sst) auto
    from TcpScanner_new_cases [OF new assms(1)] r
    have N: "scanner_ok s" "tcp_inv s (led w1) st" "count_active (t_probe_table st) = 0"
      "total_hosts s = tcfg_total_hosts config" by auto
    have M: "max_probes s = min (tcfg_max_probes config) (tcfg_total_hosts config)"
      "batch_size s = safe_batch_size (tcfg_batch_size config) (tcfg_total_hosts config)"
      using new r by (auto simp: TcpScanner_new_def tcp_members_def Let_def split: prod.splits if_splits)
    let ?st = "st\<lparr>t_next_host_idx := 0, t_active_probes := 0, t_hosts_found := 0, t_scan_results := [], t_reported := []\<rparr>"
    have "\<exists>q. tcp_run_loop os s ?st = Some q"
    proof (cases "total_hosts s = 0")
      case True
      then show ?thesis by (subst tcp_run_loop.simps) simp
    next
      case False
      then have "0 < max_probes s" "0 < batch_size s" "max_probes s < 2 ^ 31"
        using M N(4) assms by (simp_all add: safe_batch_size_def UINT_MAX_def tcp_config_ok_def min_less_iff_disj)
      with tcp_start_inv [OF N(2,3)] N(1) show ?thesis by (intro tcp_run_loop_returns)
    qed
    then obtain q where q: "tcp_run_loop os s ?st = Some q" ..
    have "\<exists>q. tcp_run os s st = Some q" by (cases q) (simp_all add: tcp_run_def q)
    then obtain p where p: "tcp_run os s st = Some p" ..
    show ?thesis by (cases p) (auto simp: tcp_session_def c new r p split: prod.splits)
  qed
qed

end

end
