(* ===== verification/Loopback.thy ===== *)
theory Loopback
  imports Cli Arp_Messages Tcp_Ends
begin

text \<open>
  A concrete operating system for the parameter \<open>'w os\<close>: a small kernel in which every address
  answers. An ICMP socket gives back each echo request as a reply, a TCP connection is open at
  once, the neighbour table has one entry, and the clock advances by a millisecond when it is read.
  The properties that assume an operating system of some kind are shown not to be vacuous on it.
\<close>

section \<open>The kernel\<close>

record sim =
  sim_clock :: int
  sim_inbox :: "rx_msg list"
  sim_ready :: "epoll_event list"

fun sim_call :: "request \<Rightarrow> sim \<Rightarrow> (int \<times> int) \<times> sim" where
  "sim_call (Socket k) v = ((3, 0), v)"
| "sim_call Epoll_create1 v = ((4, 0), v)"
| "sim_call (Connect fd a p) v = ((-1, EINPROGRESS), v)"
| "sim_call (Epoll_ctl ep EPOLL_CTL_ADD fd (Some ev)) v =
     ((0, 0), if ep_events ev AND EPOLLOUT \<noteq> 0 then v\<lparr>sim_ready := sim_ready v @ [ev]\<rparr> else v)"
| "sim_call q v = ((0, 0), v)"

definition sim_time :: "sim \<Rightarrow> timespec \<times> sim" where
  "sim_time v = (\<lparr>tv_sec = sim_clock v div NANOSECONDS_PER_SECOND_LL,
       tv_nsec = sim_clock v mod NANOSECONDS_PER_SECOND_LL\<rparr>,
     v\<lparr>sim_clock := sim_clock v + NANOSECONDS_PER_MILLISECOND_LL\<rparr>)"

text \<open>The reply to an echo request: the same bytes, with the type changed.\<close>

definition echo_of :: "tx_msg \<Rightarrow> rx_msg" where
  "echo_of m = \<lparr>rx_addr = tx_addr m, rx_data = ICMP_ECHOREPLY # tl (tx_data m), rx_cmsgs = []\<rparr>"

definition sim_neigh :: neigh where
  "sim_neigh = \<lparr>n_flags = 2, n_seq = 0, n_pid = 0, n_ifindex = 2, n_state = 2,
     n_attrs = [(NDA_DST, [10, 0, 0, 7]), (NDA_LLADDR, [2, 0, 0, 0, 0, 0x2A])]\<rparr>"

definition sim_datagram :: "u8 list" where
  "sim_datagram = put_neighs [sim_neigh] @ put_done 0 0"

definition sim_epoll_wait :: "int \<Rightarrow> nat \<Rightarrow> int \<Rightarrow> sim \<Rightarrow> (int \<times> int \<times> epoll_event list) \<times> sim" where
  "sim_epoll_wait ep n tmo v =
     (if sim_inbox v \<noteq> [] then ((1, 0, [\<lparr>ep_events = EPOLLIN, ep_data = 3\<rparr>]), v)
      else ((int (length (take n (sim_ready v))), 0, take n (sim_ready v)),
            v\<lparr>sim_ready := drop n (sim_ready v)\<rparr>))"

definition sim_sendmmsg :: "int \<Rightarrow> tx_msg list \<Rightarrow> sim \<Rightarrow> (int \<times> int) \<times> sim" where
  "sim_sendmmsg fd msgs v =
     ((int (length msgs), 0), v\<lparr>sim_inbox := sim_inbox v @ map echo_of msgs\<rparr>)"

definition sim_recvmmsg :: "int \<Rightarrow> nat \<Rightarrow> sim \<Rightarrow> (int \<times> int \<times> rx_msg list) \<times> sim" where
  "sim_recvmmsg fd n v =
     (if sim_inbox v = [] then ((-1, EAGAIN, []), v)
      else ((int (length (take n (sim_inbox v))), 0, take n (sim_inbox v)),
            v\<lparr>sim_inbox := drop n (sim_inbox v)\<rparr>))"

definition sim_os :: "sim os" where
  "sim_os =
     \<lparr>os_call = sim_call,
      os_clock_gettime = sim_time,
      os_getpid = (\<lambda>v. (1234, v)),
      os_getsockname = (\<lambda>fd v. ((0, 0), v)),
      os_getifaddrs = (\<lambda>v. ((0, []), v)),
      os_getnameinfo = (\<lambda>a v. ((-2, []), v)),
      os_if_indextoname = (\<lambda>i v. (Some ''eth0'', v)),
      os_getsockopt_error = (\<lambda>fd v. ((0, 0, 0), v)),
      os_epoll_wait = sim_epoll_wait,
      os_sendmmsg = sim_sendmmsg,
      os_recvmmsg = sim_recvmmsg,
      os_recvmsg = (\<lambda>fd n v. ((int (length sim_datagram), 0, False, sim_datagram), v)),
      os_inet_pton = dotted_pton,
      os_inet_ntop = dotted_ntop\<rparr>"

lemma sim_os_simps [simp]:
  "os_call sim_os = sim_call" "os_clock_gettime sim_os = sim_time" "os_getpid sim_os v = (1234, v)"
  "os_getsockname sim_os fd v = ((0, 0), v)" "os_getifaddrs sim_os v = ((0, []), v)"
  "os_getnameinfo sim_os a v = ((-2, []), v)" "os_if_indextoname sim_os i v = (Some ''eth0'', v)"
  "os_getsockopt_error sim_os fd v = ((0, 0, 0), v)" "os_epoll_wait sim_os = sim_epoll_wait"
  "os_sendmmsg sim_os = sim_sendmmsg" "os_recvmmsg sim_os = sim_recvmmsg"
  "os_recvmsg sim_os fd n v = ((int (length sim_datagram), 0, False, sim_datagram), v)"
  "os_inet_pton sim_os = dotted_pton" "os_inet_ntop sim_os = dotted_ntop"
  by (simp_all add: sim_os_def)

text \<open>A world: the open descriptors, the clock, what waits to be received.\<close>

definition sim_world :: "int list \<Rightarrow> int \<Rightarrow> rx_msg list \<Rightarrow> epoll_event list \<Rightarrow> sim world" where
  "sim_world fds n inbox ready =
     \<lparr>led = \<lparr>open_fds = fds, bad_closes = 0\<rparr>,
      env = \<lparr>sim_clock = n, sim_inbox = inbox, sim_ready = ready\<rparr>\<rparr>"

lemma sim_world_simps [simp]:
  "env (sim_world fds n i r) = \<lparr>sim_clock = n, sim_inbox = i, sim_ready = r\<rparr>"
  "led (sim_world fds n i r) = \<lparr>open_fds = fds, bad_closes = 0\<rparr>"
  "(sim_world fds n i r)\<lparr>env := \<lparr>sim_clock = n', sim_inbox = i', sim_ready = r'\<rparr>\<rparr> = sim_world fds n' i' r'"
  "(sim_world fds n i r)\<lparr>led := \<lparr>open_fds = fds', bad_closes = 0\<rparr>,
      env := \<lparr>sim_clock = n', sim_inbox = i', sim_ready = r'\<rparr>\<rparr> = sim_world fds' n' i' r'"
  "(sim_world fds n i r)\<lparr>led := \<lparr>open_fds = fds', bad_closes = 0\<rparr>\<rparr> = sim_world fds' n i r"
  by (simp_all add: sim_world_def)

definition sim_start :: "sim world" where
  "sim_start = sim_world [0, 1, 2] 1000000000 [] []"

lemma seq_weak_cong: "m = m' \<Longrightarrow> seq m f = seq m' f" by simp

lemmas sim_calls = sim_epoll_wait_def sim_sendmmsg_def sim_recvmmsg_def sim_time_def
  sys_call_def sys_close_def on_env_def Let_def NANOSECONDS_PER_SECOND_LL_def
  NANOSECONDS_PER_MILLISECOND_LL_def O_NONBLOCK_def EPOLLIN_def EPOLLET_def EPOLLOUT_def
  EPOLLERR_def EPOLLHUP_def

text \<open>The kernel's clock advances: a reading is its time in nanoseconds, and the next one is later.\<close>

lemma sim_call_clock [simp]: "sim_clock (snd (sim_call q v)) = sim_clock v"
  by (induction q v rule: sim_call.induct) auto

interpretation sim_time: advancing_clock sim_os sim_clock
  by unfold_locales
    (simp_all add: sim_time_def sim_epoll_wait_def sim_sendmmsg_def sim_recvmmsg_def ns_of_def
      NANOSECONDS_PER_SECOND_LL_def NANOSECONDS_PER_MILLISECOND_LL_def)

section \<open>A ping scan of one host\<close>

definition sim_config :: PingScannerConfig where
  "sim_config = \<lparr>cfg_base_ip = 0x0A000001, cfg_total_hosts = 1, cfg_payload_len = 0,
     cfg_max_probes = 4096, cfg_timeout_ms = 800, cfg_send_batch_size = 4, cfg_recv_batch_size = 128,
     cfg_resolve_dns = True, cfg_result_callback = True\<rparr>"

definition sim_scanner :: ping_scanner where
  "sim_scanner = (ping_members sim_config no_interface)\<lparr>sock := 3, epoll_fd := 4\<rparr>"

definition sim_fresh :: "sim ping_state" where
  "sim_fresh = initialize_buffers sim_scanner (sim_world [4, 3, 0, 1, 2] 1001000000 [] [])"

lemma sim_scanner_simps [simp]:
  "base_ip sim_scanner = 0x0A000001" "total_hosts sim_scanner = 1" "network_interface sim_scanner = no_interface"
  "max_probes sim_scanner = 1" "timeout_ms sim_scanner = 800" "resolve_dns sim_scanner" "has_callback sim_scanner"
  "epoll_fd sim_scanner = 4" "payload_len sim_scanner = 0" "send_batch_size sim_scanner = 1"
  "recv_batch_size sim_scanner = 1" "packet_buffer_size sim_scanner = 32" "sock sim_scanner = 3"
  "\<not> is_local no_interface"
  by (simp_all add: sim_scanner_def sim_config_def ping_members_def safe_batch_size_def UINT_MAX_def
      size_add_def sizeof_IcmpHdr_def sizeof_PingPayload_def no_interface_def)

lemma sim_fetch: "fetch sim_os b n (sim_world fds t [] []) = (no_interface, sim_world fds t [] [])"
  by (simp add: fetch_def sim_calls)

lemma sim_new:
  "PingScanner_new sim_os sim_config (sim_world [0, 1, 2] 1001000000 [] [])
    = (Inr (sim_scanner, sim_fresh), sim_world [4, 3, 0, 1, 2] 1001000000 [] [])"
  by (simp add: PingScanner_new_def sim_fetch initialize_socket_def sim_fresh_def sim_calls sim_scanner_def
      cong: let_weak_cong)

lemma sim_scanner_ok: "scanner_ok sim_scanner" "packet_ok sim_scanner" "config_ok sim_config"
  by (simp_all add: scanner_ok_def packet_ok_def send_count_def config_ok_def sim_config_def)

lemma sim_sized: "sized sim_scanner sim_fresh"
  unfolding sim_fresh_def by (rule initialize_buffers_sized) (rule sim_scanner_ok)

lemma sim_fresh_simps [simp]:
  "probe_table sim_fresh = [ProbeInfo_init]" "host_to_probe sim_fresh = [-1]" "found_ips_cache sim_fresh = []"
  "next_host_idx sim_fresh = 0" "active_probes sim_fresh = 0" "hosts_found sim_fresh = 0" "next_seq sim_fresh = 1"
  "scan_results sim_fresh = []" "reported sim_fresh = []" "send_packets sim_fresh = replicate 32 0"
  "send_addrs sim_fresh = [0]" "send_iovs sim_fresh = [(0, 0)]" "send_msgvec sim_fresh = [None]"
  "send_probe_slots sim_fresh = [-1]" "world sim_fresh = sim_world [4, 3, 0, 1, 2] 1001000000 [] []"
  "echo_replies sim_fresh = 0" "unmatched_replies sim_fresh = 0" "tx_drops sim_fresh = 0"
  "probe_timeouts sim_fresh = 0" "rx_queue_overflows sim_fresh = 0" "\<not> active ProbeInfo_init"
  by (simp_all add: sim_fresh_def initialize_buffers_def ProbeInfo_init_def send_count_def size_mul_def)

lemma sim_reset: "run_reset sim_scanner sim_fresh = sim_fresh"
  by (simp add: run_reset_def)

text \<open>The request, on the wire.\<close>

definition sim_packet :: "u8 list" where
  "sim_packet = [8, 0, 0, 0, 4, 210, 0, 1, 1, 0, 0, 10, 0, 0, 0, 0,
     1, 0, 0, 0, 0, 0, 0, 0, 0x40, 0x42, 0x0F, 0, 0, 0, 0, 0]"

definition sim_probe :: ping_probe where
  "sim_probe = \<lparr>active = True, dest_ip = 0x0A000001,
     send_time = \<lparr>tv_sec = 1, tv_nsec = 1000000\<rparr>, seq_no = 1\<rparr>"

definition sim_filled :: "sim ping_state" where
  "sim_filled = sim_fresh\<lparr>next_seq := 2, probe_table := [sim_probe], host_to_probe := [0],
     world := sim_world [4, 3, 0, 1, 2] 1002000000 [] [], send_packets := sim_packet,
     send_addrs := [0x0100000A], send_iovs := [(0, 32)], send_msgvec := [Some 0], send_probe_slots := [0],
     next_host_idx := 1, active_probes := 1\<rparr>"

lemmas packet_eval = prepare_single_packet_def write_packet_def write_bytes_def ICMP_ECHO_def size_add_def
  size_mul_def sizeof_IcmpHdr_def sizeof_PingPayload_def put_IcmpHdr_def put_PingPayload_def put_u8_def
  put_u16_def put_u32_def put_u64_def htons_def htonl_def eval_simps

lemma sim_populate:
  "populate_one sim_os 0 sim_scanner \<lparr>tv_sec = 1, tv_nsec = 1000000\<rparr>
     (sim_fresh\<lparr>world := sim_world [4, 3, 0, 1, 2] 1002000000 [] []\<rparr>, 0) = Inr (Again (sim_filled, 1))"
  by (simp add: populate_one_def find_available_probe_slot_def host_index_for_ip_def is_host_found_def
      allocate_sequence_def packet_eval sim_calls sim_filled_def sim_packet_def sim_probe_def cong: let_weak_cong)

lemma sim_filled_simps [simp]:
  "probe_table sim_filled = [sim_probe]" "host_to_probe sim_filled = [0]" "found_ips_cache sim_filled = []"
  "next_host_idx sim_filled = 1" "active_probes sim_filled = 1" "hosts_found sim_filled = 0"
  "scan_results sim_filled = []" "reported sim_filled = []" "send_packets sim_filled = sim_packet"
  "send_addrs sim_filled = [0x0100000A]" "send_iovs sim_filled = [(0, 32)]" "send_msgvec sim_filled = [Some 0]"
  "send_probe_slots sim_filled = [0]" "world sim_filled = sim_world [4, 3, 0, 1, 2] 1002000000 [] []"
  "echo_replies sim_filled = 0" "unmatched_replies sim_filled = 0" "tx_drops sim_filled = 0"
  "probe_timeouts sim_filled = 0" "rx_queue_overflows sim_filled = 0" "length sim_packet = 32"
  by (simp_all add: sim_filled_def sim_packet_def)

definition sim_reply :: rx_msg where
  "sim_reply = echo_of \<lparr>tx_addr = 0x0100000A, tx_data = sim_packet\<rparr>"

definition sim_sent :: "sim ping_state" where
  "sim_sent = sim_filled\<lparr>world := sim_world [4, 3, 0, 1, 2] 1002000000 [sim_reply] [], send_probe_slots := [-1]\<rparr>"

lemma sim_flush: "flush_send_queue sim_os sim_scanner 1 sim_filled = Some (Inr (True, sim_sent))"
  by (simp add: flush_send_queue_def flush_loop.simps message_at_def clear_sent_def on_env_def sim_sendmmsg_def
      Let_def sim_sent_def sim_reply_def cong: seq_weak_cong let_weak_cong)

lemma sim_send: "send_batch sim_os 0 sim_scanner sim_fresh = Some (Inr (True, sim_sent))"
  by (simp add: send_batch_def populate_batch_entries.simps sim_populate [simplified] sim_flush [simplified] sim_calls)

lemma sim_sent_simps [simp]:
  "probe_table sim_sent = [sim_probe]" "host_to_probe sim_sent = [0]" "found_ips_cache sim_sent = []"
  "next_host_idx sim_sent = 1" "active_probes sim_sent = 1" "hosts_found sim_sent = 0"
  "scan_results sim_sent = []" "reported sim_sent = []"
  "world sim_sent = sim_world [4, 3, 0, 1, 2] 1002000000 [sim_reply] []"
  "echo_replies sim_sent = 0" "unmatched_replies sim_sent = 0" "tx_drops sim_sent = 0"
  "probe_timeouts sim_sent = 0" "rx_queue_overflows sim_sent = 0"
  by (simp_all add: sim_sent_def)

lemma sim_reply_simps [simp]:
  "rx_addr sim_reply = 0x0100000A" "rx_cmsgs sim_reply = []" "length (rx_data sim_reply) = 32"
  "get_IcmpHdr (take 8 (rx_data sim_reply)) = \<lparr>icmp_type = 0, icmp_code = 0, icmp_checksum = 0,
     icmp_id = 0xD204, icmp_sequence = 0x100\<rparr>"
  "get_PingPayload (drop 8 (rx_data sim_reply)) = \<lparr>target_ip = 0x0A000001, send_sec = 1, send_nsec = 1000000\<rparr>"
  by (simp_all add: sim_reply_def echo_of_def sim_packet_def get_IcmpHdr_def get_PingPayload_def get_u8_def
      get_u16_def get_u32_def get_u64_def ICMP_ECHOREPLY_def)

definition sim_hit :: PingHostResult where
  "sim_hit = \<lparr>ip = 0x0A000001, ip_str = dotted_ntop 0x0100000A, hostname = ''N/A'', rtt_ms = 1, ttl = -1\<rparr>"

definition sim_found :: "sim ping_state" where
  "sim_found = sim_sent\<lparr>echo_replies := 1, found_ips_cache := [0x0A000001], hosts_found := 1,
     probe_table := [sim_probe\<lparr>active := False\<rparr>], active_probes := 0, host_to_probe := [-1],
     reported := [sim_hit], scan_results := [sim_hit], world := sim_world [4, 3, 0, 1, 2] 1003000000 [] []\<rparr>"

lemma sim_process:
  "process_received_packet sim_os sim_scanner sim_reply \<lparr>tv_sec = 1, tv_nsec = 2000000\<rparr> (-1)
     (sim_sent\<lparr>rx_queue_overflows := 0, world := sim_world [4, 3, 0, 1, 2] 1003000000 [] []\<rparr>) = Inr sim_found"
  by (simp add: process_received_packet_def sizeof_IcmpHdr_def sizeof_PingPayload_def host_index_for_ip_def
      is_host_found_def on_env_def ICMP_ECHOREPLY_def ntohl_def htonl_def record_reply_def clear_reply_slot_def
      format_ip_def resolve_hostname_def payload_time_def eval_simps Let_def diff_ns_def chk64_def fits64_def
      rtt_of_def NANOSECONDS_PER_SECOND_LL_def NANOSECONDS_PER_MILLISECOND_LL_def inet_ntop_into_def
      INET_ADDRSTRLEN_def dotted.ntop_fits sim_found_def sim_hit_def sim_probe_def cong: let_weak_cong)

lemma sim_found_simps [simp]:
  "probe_table sim_found = [sim_probe\<lparr>active := False\<rparr>]" "host_to_probe sim_found = [-1]"
  "next_host_idx sim_found = 1" "active_probes sim_found = 0"
  "scan_results sim_found = [sim_hit]" "reported sim_found = [sim_hit]"
  "world sim_found = sim_world [4, 3, 0, 1, 2] 1003000000 [] []"
  "echo_replies sim_found = 1" "unmatched_replies sim_found = 0" "tx_drops sim_found = 0"
  "probe_timeouts sim_found = 0" "rx_queue_overflows sim_found = 0"
  "sim_found\<lparr>world := sim_world [4, 3, 0, 1, 2] 1003000000 [] []\<rparr> = sim_found"
  by (simp_all add: sim_found_def)

lemma sim_receive: "receive_responses sim_os sim_scanner True sim_sent = Some (Inr sim_found)"
  by (simp add: receive_responses_def receive_loop.simps extract_control_data_def
      sim_process [simplified] sizeof_IcmpHdr_def sim_calls cong: let_weak_cong seq_weak_cong)

definition sim_end :: "sim ping_state" where
  "sim_end = sim_found\<lparr>world := sim_world [4, 3, 0, 1, 2] 1004000000 [] []\<rparr>"

lemma sim_reap: "reap_timed_out_probes sim_os sim_scanner sim_found = Inr sim_end"
  by (simp add: reap_timed_out_probes_def reap_slot_def sim_end_def sim_calls)

lemma sim_end_simps [simp]:
  "next_host_idx sim_end = 1" "active_probes sim_end = 0" "scan_results sim_end = [sim_hit]"
  "reported sim_end = [sim_hit]" "world sim_end = sim_world [4, 3, 0, 1, 2] 1004000000 [] []"
  by (simp_all add: sim_end_def)

definition sim_result :: PingScanResult where
  "sim_result = \<lparr>hosts = [sim_hit], total_tx_drops = 0, total_rx_queue_overflows = 0,
     total_echo_replies = 1, total_unmatched_replies = 0, total_probe_timeouts = 0\<rparr>"

lemma sim_hit_in: "sim_hit \<in> set (hosts sim_result)"
  by (simp add: sim_result_def)

lemma sim_loop_end: "run_loop sim_os 0 sim_scanner sim_end = Some (Inr sim_end)"
  by (simp add: run_loop.simps)

lemma sim_run: "run sim_os 0 sim_scanner sim_fresh = Some (Inr (sim_result, sim_end))"
proof -
  have "run_loop sim_os 0 sim_scanner sim_fresh = Some (Inr sim_end)"
    by (subst run_loop.simps) (simp add: sim_send sim_receive sim_reap sim_loop_end)
  moreover have "scan_result sim_end = sim_result"
    by (simp add: scan_result_def sim_result_def sim_end_def)
  ultimately show ?thesis by (simp add: run_def sim_reset)
qed

text \<open>The whole session, and with it the program on the command line \<^verbatim>\<open>netscan 10.0.0.1\<close>.\<close>

lemma sim_ping_session:
  "ping_session sim_os 0 sim_config sim_start
    = Some (Inr ((sim_result, [sim_hit], \<lparr>tv_sec = 1, tv_nsec = 0\<rparr>, \<lparr>tv_sec = 1, tv_nsec = 4000000\<rparr>),
        sim_world [0, 1, 2] 1005000000 [] []))"
  by (simp add: ping_session_def sim_start_def sim_new sim_run PingScanner_delete_def sim_calls
      cong: let_weak_cong seq_weak_cong)

section \<open>A TCP scan of one host\<close>

definition sim_tcp_config :: TcpScannerConfig where
  "sim_tcp_config = \<lparr>tcfg_base_ip = 0x0A000001, tcfg_total_hosts = 1, tcfg_target_port = 443,
     tcfg_max_probes = 4096, tcfg_timeout_ms = 600, tcfg_batch_size = 4, tcfg_resolve_dns = True,
     tcfg_result_callback = True\<rparr>"

definition sim_tcp_scanner :: tcp_scanner where
  "sim_tcp_scanner = (tcp_members sim_tcp_config no_interface)\<lparr>epoll_fd := 4\<rparr>"

lemma sim_tcp_scanner_simps [simp]:
  "base_ip sim_tcp_scanner = 0x0A000001" "total_hosts sim_tcp_scanner = 1"
  "network_interface sim_tcp_scanner = no_interface" "max_probes sim_tcp_scanner = 1"
  "timeout_ms sim_tcp_scanner = 600" "resolve_dns sim_tcp_scanner" "has_callback sim_tcp_scanner"
  "epoll_fd sim_tcp_scanner = 4" "target_port sim_tcp_scanner = 443" "batch_size sim_tcp_scanner = 1"
  by (simp_all add: sim_tcp_scanner_def sim_tcp_config_def tcp_members_def safe_batch_size_def UINT_MAX_def)

definition sim_tcp_fresh :: "sim tcp_state" where
  "sim_tcp_fresh = \<lparr>t_probe_table = [TcpProbe_init], t_next_host_idx = 0, t_active_probes = 0,
     t_hosts_found = 0, t_scan_results = [], t_reported = [],
     t_world = sim_world [4, 0, 1, 2] 1001000000 [] []\<rparr>"

lemma sim_tcp_new:
  "TcpScanner_new sim_os sim_tcp_config (sim_world [0, 1, 2] 1001000000 [] [])
    = (Inr (sim_tcp_scanner, sim_tcp_fresh), sim_world [4, 0, 1, 2] 1001000000 [] [])"
  by (simp add: TcpScanner_new_def sim_fetch sim_calls sim_tcp_fresh_def sim_tcp_scanner_def
      tcp_members_def sim_tcp_config_def cong: let_weak_cong)

definition sim_tcp_probe :: tcp_probe where
  "sim_tcp_probe = \<lparr>active = True, dest_ip = 0x0A000001,
     send_time = \<lparr>tv_sec = 1, tv_nsec = 1000000\<rparr>, tcp_sock = 3\<rparr>"

definition sim_tcp_sent :: "sim tcp_state" where
  "sim_tcp_sent = sim_tcp_fresh\<lparr>t_probe_table := [sim_tcp_probe], t_next_host_idx := 1,
     t_active_probes := 1,
     t_world := sim_world [3, 4, 0, 1, 2] 1002000000 [] [\<lparr>ep_events = 0x1C, ep_data = 0\<rparr>]\<rparr>"

lemma sim_tcp_initiate: "initiate_connections sim_os sim_tcp_scanner 0 sim_tcp_fresh = Inr sim_tcp_sent"
  by (simp add: initiate_connections.simps initiate_single_connection_def connect_socket_def set_buffer_def
      tcp_buf_size_def sim_calls sim_tcp_fresh_def sim_tcp_sent_def sim_tcp_probe_def TcpProbe_init_def
      size_add_def cong: let_weak_cong)

definition sim_port :: TcpHostResult where
  "sim_port = \<lparr>ip = 0x0A000001, ip_str = dotted_ntop 0x0100000A, hostname = ''N/A'', rtt_ms = 1, port = 443\<rparr>"

definition sim_tcp_found :: "sim tcp_state" where
  "sim_tcp_found = sim_tcp_sent\<lparr>t_probe_table := [sim_tcp_probe\<lparr>active := False\<rparr>], t_active_probes := 0,
     t_hosts_found := 1, t_scan_results := [sim_port], t_reported := [sim_port],
     t_world := sim_world [4, 0, 1, 2] 1003000000 [] []\<rparr>"

lemma sim_tcp_poll: "poll_connections sim_os sim_tcp_scanner sim_tcp_sent = Inr sim_tcp_found"
  by (simp add: poll_connections_def poll_one_def report_open_def sim_calls sim_tcp_sent_def sim_tcp_fresh_def
      sim_tcp_found_def sim_tcp_probe_def sim_port_def format_ip_def inet_ntop_into_def INET_ADDRSTRLEN_def
      dotted.ntop_fits resolve_hostname_def diff_ns_def chk64_def fits64_def rtt_of_def EPOLL_TIMEOUT_MS_def
      htonl_def eval_simps size_sub_def cong: let_weak_cong)

definition sim_tcp_end :: "sim tcp_state" where
  "sim_tcp_end = sim_tcp_found\<lparr>t_world := sim_world [4, 0, 1, 2] 1004000000 [] []\<rparr>"

lemma sim_tcp_reap: "tcp_reap_timed_out_probes sim_os sim_tcp_scanner sim_tcp_found = Inr sim_tcp_end"
  by (simp add: tcp_reap_timed_out_probes_def tcp_reap_slot_def sim_calls sim_tcp_end_def sim_tcp_found_def
      sim_tcp_sent_def sim_tcp_fresh_def)

lemma sim_tcp_end_simps [simp]:
  "t_reported sim_tcp_end = [sim_port]" "t_world sim_tcp_end = sim_world [4, 0, 1, 2] 1004000000 [] []"
  "t_probe_table sim_tcp_end = [sim_tcp_probe\<lparr>active := False\<rparr>]"
  by (simp_all add: sim_tcp_end_def sim_tcp_found_def sim_tcp_sent_def)

lemma sim_tcp_run: "tcp_run sim_os sim_tcp_scanner sim_tcp_fresh = Some (Inr ([sim_port], sim_tcp_end))"
proof -
  have "tcp_run_loop sim_os sim_tcp_scanner sim_tcp_end = Some (Inr sim_tcp_end)"
    by (simp add: tcp_run_loop.simps sim_tcp_end_def sim_tcp_found_def sim_tcp_sent_def)
  moreover have "t_next_host_idx sim_tcp_fresh = 0" "sim_tcp_fresh\<lparr>t_next_host_idx := 0, t_active_probes := 0,
      t_hosts_found := 0, t_scan_results := [], t_reported := []\<rparr> = sim_tcp_fresh"
    by (simp_all add: sim_tcp_fresh_def)
  ultimately have "tcp_run_loop sim_os sim_tcp_scanner sim_tcp_fresh = Some (Inr sim_tcp_end)"
    by (subst tcp_run_loop.simps) (simp add: sim_tcp_initiate sim_tcp_poll sim_tcp_reap)
  then show ?thesis
    by (simp add: tcp_run_def sim_tcp_fresh_def) (simp add: sim_tcp_end_def sim_tcp_found_def)
qed

lemma sim_tcp_session:
  "tcp_session sim_os sim_tcp_config sim_start
    = Some (Inr (([sim_port], [sim_port], \<lparr>tv_sec = 1, tv_nsec = 0\<rparr>, \<lparr>tv_sec = 1, tv_nsec = 4000000\<rparr>),
        sim_world [0, 1, 2] 1005000000 [] []))"
  by (simp add: tcp_session_def sim_start_def sim_tcp_new sim_tcp_run TcpScanner_delete_def sim_calls
      cong: let_weak_cong seq_weak_cong)

lemma sim_tcp_config_ok: "tcp_config_ok sim_tcp_config"
  by (simp add: tcp_config_ok_def sim_tcp_config_def)

section \<open>The neighbour table\<close>

lemma sim_neigh_ok: "list_all neigh_ok [sim_neigh]"
  by (simp add: neigh_ok_def sim_neigh_def attr_ok_def neigh_len_def put_attrs_def length_put_attr NDA_DST_def)

lemma sim_datagram_length: "length sim_datagram = 68"
  by (simp add: sim_datagram_def put_neighs_def length_put_neigh neigh_len_def sim_neigh_def put_attrs_def
      length_put_attr)

definition sim_entry :: ArpEntry where
  "sim_entry = \<lparr>arp_ip = 0x0A000007, mac_address = ''02:00:00:00:00:2a'', interface_index = 2,
     iface_name = ''eth0''\<rparr>"

lemma sim_neigh_step: "neigh_step sim_os sim_neigh (es, w) = (es @ [sim_entry], w)"
  by (simp add: neigh_step_def sim_neigh_def NDA_DST_def NDA_LLADDR_def get_u32_def ntohl_def eval_simps
      no_mac_def hex2_def hex_digit_def NUD_INCOMPLETE_def on_env_def sim_entry_def char_of_def bit_0)

section \<open>Variations\<close>

text \<open>The state before a scan, one waiting for a late reply, a socket that never takes a message, a scanner that sends nothing and is given a forged reply, and a host with a local network.\<close>

lemma sim_table_inv: "table_inv sim_scanner sim_fresh" "buf_inv sim_scanner sim_fresh" "ping_inv sim_scanner sim_fresh"
  using run_reset_inv(1) [OF sim_sized] by (simp_all add: sim_reset ping_inv_def)

lemma sim_sent_inv: "ping_inv sim_scanner sim_sent"
proof -
  have "abs_rel sim_fresh scan_start" using run_reset_inv(2) [OF sim_sized] by (simp add: sim_reset)
  from round_simulates [OF sim_scanner_ok(1,2) sim_table_inv(3) this _ sim_send]
  show ?thesis by (auto simp: scan_start_def)
qed

definition sim_late :: "sim ping_state" where
  "sim_late = sim_sent\<lparr>world := sim_world [4, 3, 0, 1, 2] 5000000000 [] []\<rparr>"

lemma sim_late_inv: "ping_inv sim_scanner sim_late"
  unfolding sim_late_def by (rule received_inv [OF received_counters(4) [OF sim_sent_inv]]) simp

definition blocked_os :: "sim os" where
  "blocked_os = sim_os\<lparr>os_sendmmsg := \<lambda>fd msgs v. ((-1, EAGAIN), v)\<rparr>"

lemma blocked_flush:
  "flush_send_queue blocked_os sim_scanner 1 sim_filled
    = Some (Inr (False, give_up sim_scanner 0 1 (sim_filled\<lparr>tx_drops := 1\<rparr>)))"
  by (simp add: flush_send_queue_def flush_loop.simps wait_for_socket_writable_def wait_loop.simps blocked_os_def
      poll_event_def sim_calls cong: let_weak_cong seq_weak_cong) (simp add: sim_filled_def sim_fresh_def initialize_buffers_def)

lemma blocked_populate:
  "populate_batch_entries blocked_os 0 sim_scanner \<lparr>tv_sec = 1, tv_nsec = 1000000\<rparr>
     (sim_fresh\<lparr>world := sim_world [4, 3, 0, 1, 2] 1002000000 [] []\<rparr>, 0) = Inr (sim_filled, 1)"
proof -
  have "prepare_single_packet blocked_os = prepare_single_packet sim_os"
    by (intro ext) (simp add: prepare_single_packet_def blocked_os_def)
  then have "populate_one blocked_os = populate_one sim_os"
    by (intro ext) (simp only: populate_one_def)
  then show ?thesis by (simp add: populate_batch_entries.simps sim_populate [simplified])
qed

definition sim_given_up :: "sim ping_state" where
  "sim_given_up = give_up sim_scanner 0 1 (sim_filled\<lparr>tx_drops := 1\<rparr>)"

lemma sim_waiting:
  defines "st \<equiv> sim_fresh\<lparr>world := sim_world [4, 3, 0, 1, 2] 1002000000 [] []\<rparr>"
  shows "table_inv sim_scanner st" "buf_inv sim_scanner st"
    "inflight st = inflight sim_fresh" "results_of st = results_of sim_fresh"
proof -
  have "same_but_world sim_fresh st" unfolding st_def by (rule same_but_world_step(1)) simp_all
  note same_but_world_table [OF this]
  then show "table_inv sim_scanner st" "buf_inv sim_scanner st"
    "inflight st = inflight sim_fresh" "results_of st = results_of sim_fresh"
    using sim_table_inv(1,2) by blast+
qed

definition idle_scanner :: ping_scanner where
  "idle_scanner = sim_scanner\<lparr>send_batch_size := 0\<rparr>"

lemma idle_scanner_simps [simp]:
  "base_ip idle_scanner = 0x0A000001" "total_hosts idle_scanner = 1" "max_probes idle_scanner = 1"
  "send_batch_size idle_scanner = 0" "recv_batch_size idle_scanner = 1" "packet_buffer_size idle_scanner = 32"
  "payload_len idle_scanner = 0"
  by (simp_all add: idle_scanner_def)

lemma idle_ok: "scanner_ok idle_scanner" "packet_ok idle_scanner" "sized idle_scanner (initialize_buffers idle_scanner w)"
proof -
  show pk: "packet_ok idle_scanner" by (simp add: packet_ok_def send_count_def)
  show "scanner_ok idle_scanner" by (simp add: scanner_ok_def)
  show "sized idle_scanner (initialize_buffers idle_scanner w)" by (rule initialize_buffers_sized [OF pk])
qed

text \<open>A reply from the scanned host that claims to have been sent \<open>2 ^ 63\<close> seconds before 1970.\<close>

definition forged_reply :: rx_msg where
  "forged_reply = \<lparr>rx_addr = htonl 0x0A000001,
     rx_data = put_IcmpHdr \<lparr>icmp_type = ICMP_ECHOREPLY, icmp_code = 0, icmp_checksum = 0, icmp_id = 0,
         icmp_sequence = 0\<rparr> @
       put_PingPayload 0 \<lparr>target_ip = 0x0A000001, send_sec = 0x8000000000000000, send_nsec = 0\<rparr>,
     rx_cmsgs = []\<rparr>"

lemma forged_overflow:
  assumes "found_ips_cache st = []" and "tv_sec ts = 1"
  shows "process_received_packet os idle_scanner forged_reply ts t st = Inl Signed_overflow"
  using assms get_echo [of _ 0 _ "[]"]
  by (simp add: process_received_packet_eq [OF idle_ok(1)] answers_def echo_reply_def forged_reply_def
      reply_header_def reply_payload_def in_range_def diff_ns_def chk64_def fits64_def payload_time_def
      hdr.length_enc payload.length_enc sizeof_IcmpHdr_def sizeof_PingPayload_def)

lemma forged_run:
  "run sim_os 0 idle_scanner (initialize_buffers idle_scanner (sim_world [4, 3] 1000000000 [forged_reply] []))
    = Some (Inl Signed_overflow)"
proof -
  let ?st = "run_reset idle_scanner (initialize_buffers idle_scanner (sim_world [4, 3] 1000000000 [forged_reply] []))"
  have "length (rx_data forged_reply) = 32"
    by (simp add: forged_reply_def hdr.length_enc payload.length_enc sizeof_IcmpHdr_def sizeof_PingPayload_def)
  moreover have "rx_cmsgs forged_reply = []" by (simp add: forged_reply_def)
  ultimately have "run_loop sim_os 0 idle_scanner ?st = Some (Inl Signed_overflow)"
    by (subst run_loop.simps)
      (simp add: send_batch_def populate_batch_entries.simps receive_responses_def receive_loop.simps
        forged_overflow extract_control_data_def sizeof_IcmpHdr_def run_reset_def initialize_buffers_def sim_calls
        cong: let_weak_cong seq_weak_cong)
  then show ?thesis by (simp add: run_def)
qed

text \<open>An interface with address 192.168.1.66 and mask 255.255.255.0 carries the route.\<close>

definition lan_os :: "sim os" where
  "lan_os = sim_os\<lparr>os_call := (\<lambda>q v. case q of Connect fd a p \<Rightarrow> ((0, 0), v) | _ \<Rightarrow> sim_call q v),
     os_getsockname := (\<lambda>_ v. ((0, htonl 0xC0A80142), v)),
     os_getifaddrs := (\<lambda>v. ((0, [\<lparr>ifa_name = ''eth0'', ifa_flags = IFF_UP OR IFF_BROADCAST,
       ifa_addr = Some \<lparr>sa_family = AF_INET, sa_addr = htonl 0xC0A80142\<rparr>,
       ifa_netmask = Some \<lparr>sa_family = AF_INET, sa_addr = htonl 0xFFFFFF00\<rparr>\<rparr>]), v))\<rparr>"

definition lan :: NetworkInterface where
  "lan = \<lparr>if_name = ''eth0'', if_ip = dotted_ntop 0x4201A8C0, if_network = dotted_ntop 0x0001A8C0,
     if_broadcast = dotted_ntop 0xFF01A8C0, ip_address = 0xC0A80142, network_ip = 0xC0A80100,
     broadcast_ip = 0xC0A801FF, is_local = True\<rparr>"

lemma lan_fetch: "fetch lan_os 0xC0A80180 16 sim_start = (lan, sim_start)"
  by (simp add: fetch_def lan_os_def sys_call_def sys_close_def on_env_def sim_start_def lan_def
      ntop_field_def dotted.ntop_fits INET_ADDRSTRLEN_def htonl_def ntohl_def eval_simps cong: let_weak_cong)

text \<open>A TCP scan in the middle, one waiting for a late connection, one with too many slots and one with empty batches.\<close>

lemma sim_tcp_ok: "scanner_ok sim_tcp_scanner" "tcp_inv sim_tcp_scanner (led (t_world sim_tcp_fresh)) sim_tcp_fresh"
  using TcpScanner_new_cases [OF sim_tcp_new sim_tcp_config_ok] by (auto simp: sim_tcp_fresh_def)

lemma sim_tcp_steps:
  "(tcp_step sim_os sim_tcp_scanner)\<^sup>*\<^sup>* sim_tcp_fresh sim_tcp_sent"
  by (rule r_into_rtranclp, rule tcp_step.initiate, rule sim_tcp_initiate)

lemma sim_tcp_sent_inv: "tcp_inv sim_tcp_scanner (led (t_world sim_tcp_fresh)) sim_tcp_sent"
  by (rule tcp_steps_inv [OF sim_tcp_steps sim_tcp_ok])

lemma sim_tcp_sent_simps [simp]:
  "t_probe_table sim_tcp_sent = [sim_tcp_probe]" "t_scan_results sim_tcp_sent = []"
  "t_world sim_tcp_sent = sim_world [3, 4, 0, 1, 2] 1002000000 [] [\<lparr>ep_events = 0x1C, ep_data = 0\<rparr>]"
  "active sim_tcp_probe" "tcp_sock sim_tcp_probe = 3" "send_time sim_tcp_probe = \<lparr>tv_sec = 1, tv_nsec = 1000000\<rparr>"
  "t_world sim_tcp_fresh = sim_world [4, 0, 1, 2] 1001000000 [] []" "t_active_probes sim_tcp_sent = 1"
  by (simp_all add: sim_tcp_sent_def sim_tcp_probe_def sim_tcp_fresh_def)

definition sim_tcp_late :: "sim tcp_state" where
  "sim_tcp_late = sim_tcp_sent\<lparr>t_world := sim_world [3, 4, 0, 1, 2] 5000000000 [] []\<rparr>"

lemma sim_tcp_late_inv: "tcp_inv sim_tcp_scanner (led (t_world sim_tcp_fresh)) sim_tcp_late"
  unfolding sim_tcp_late_def by (rule tcp_inv_world [OF sim_tcp_sent_inv]) simp

definition wide_tcp :: tcp_scanner where
  "wide_tcp = sim_tcp_scanner\<lparr>max_probes := 2 ^ 21\<rparr>"

lemma wide_tcp_run: "tcp_run sim_os wide_tcp sim_tcp_fresh = Some (Inl Signed_overflow)"
  by (simp add: tcp_run_def tcp_run_loop.simps initiate_connections.simps initiate_single_connection_def
      connect_socket_def tcp_buf_size_def wide_tcp_def sim_tcp_fresh_def TcpProbe_init_def sim_calls
      cong: let_weak_cong seq_weak_cong)

definition idle_tcp :: tcp_scanner where
  "idle_tcp = sim_tcp_scanner\<lparr>batch_size := 0\<rparr>"

lemma idle_tcp_ok: "scanner_ok idle_tcp" "tcp_inv idle_tcp (led (t_world sim_tcp_fresh)) sim_tcp_fresh"
  by (simp_all add: scanner_ok_def idle_tcp_def tcp_inv_def once_inv_def ledger_inv_def active_of_def
      count_active_def sim_tcp_fresh_def TcpProbe_init_def)

lemma sim_arp_table: "get_arp_table sim_os sim_start = Some (Inr ([sim_entry], sim_world [0, 1, 2] 1000000000 [] []))"
proof -
  have "get_arp_table sim_os sim_start =
    (let (es, w3) = fold (neigh_step sim_os) [sim_neigh] ([], (sim_world [3, 0, 1, 2] 1000000000 [] [])
        \<lparr>env := env (sim_world [3, 0, 1, 2] 1000000000 [] [])\<rparr>)
     in Some (Inr (es, sys_close sim_os 3 w3)))"
    by (rule get_arp_table_dump [where sent = 0, OF _ _ _ _ _ sim_datagram_def sim_neigh_ok])
      (simp_all add: sim_start_def sim_calls sim_datagram_length rx_buf_size_def)
  then show ?thesis by (simp add: sim_neigh_step sim_calls)
qed

section \<open>A command line\<close>

text \<open>The command line \<^verbatim>\<open>netscan 10.0.0.1\<close>, from the options to the summary.\<close>

definition sim_target :: string where
  "sim_target = format_ip dotted_ntop 0x0A000001 [] INET_ADDRSTRLEN"

definition sim_args :: "argp_event list" where
  "sim_args = [Call ARGP_KEY_ARG sim_target 0, Call ARGP_KEY_END [] 0]"

definition sim_options :: Config where
  "sim_options = Config_init\<lparr>cidr_arg := sim_target\<rparr>"

lemma sim_parse: "parse_cidr dotted_pton (Some sim_target) = Some (0x0A000001, 1)"
  unfolding sim_target_def by (rule dotted.format_ip_parse)

lemma sim_target_nonempty: "sim_target \<noteq> []"
proof
  assume "sim_target = []"
  then have "parse_cidr dotted_pton (Some []) = Some (0x0A000001, 1)" using sim_parse by simp
  then show False by (auto simp: parse_cidr_def dotted_pton_def split: option.splits)
qed

lemma sim_argp: "argp_parse sim_args Config_init = Inr sim_options"
  by (simp add: sim_args_def sim_options_def parse_opt_def)

lemma sim_options_simps [simp]:
  "cidr_arg sim_options = sim_target" "mode sim_options = ''ping''" "\<not> print_local_ip sim_options"
  "\<not> print_broadcast_ip sim_options" "\<not> print_network_ip sim_options" "options_ok sim_options"
  "scan_timeout sim_options = 800" "ping_config 0x0A000001 1 800 sim_options = sim_config"
  by (simp_all add: sim_options_def Config_init_def options_ok_def scan_timeout_def ping_config_def sim_config_def
      DEFAULT_PAYLOAD_LEN_def DEFAULT_MAX_PROBES_def DEFAULT_PING_SEND_BATCH_SIZE_def
      DEFAULT_PING_RECV_BATCH_SIZE_def DEFAULT_RESOLVE_DNS_def DEFAULT_PING_TIMEOUT_MS_def)

lemma sim_main:
  "run_main sim_os 0 sim_args sim_start =
    Some (Inr ((ping_banner 1 800 sim_options @ ping_line sim_hit @ ping_summary sim_result (1 / 250), 0),
      sim_world [0, 1, 2] 1005000000 [] []))"
  by (simp add: run_main_def sim_argp sim_target_nonempty execute_network_scan_def sim_parse sim_ping_session
      scan_seconds_def chk64_def fits64_def NANOSECONDS_PER_SECOND_LL_def)

end
