(* ===== verification/Address_Properties.thy ===== *)
theory Address_Properties
  imports Loopback
begin

text \<open>
  What \<^verbatim>\<open>utils.cpp\<close> promises: targets and blocks, the text of an address, the local interface.
\<close>

text \<open>
  C9. \<open>parse_cidr\<close> against plain arithmetic: the text of an address, a slash and a
  number up to 32 in decimal give the block of that prefix around the address, and every larger number
  is refused. What is assumed of \<^verbatim>\<open>inet_pton\<close> and \<^verbatim>\<open>inet_ntop\<close> is the interface \<open>inet_text\<close>.
\<close>

theorem parse_cidr_block:
  assumes "inet_text pton ntop"
  shows "parse_cidr pton (Some (ntop (htonl a) @ CHR ''/'' # dec_string p))
    = (if p \<le> 32 then Some (cidr_block a p) else None)"
  by (rule inet_text.parse_cidr_ntop [OF assms])

theorem parse_cidr_block_witness:
  "parse_cidr dotted_pton (Some (dotted_ntop (htonl 0xC0A80142) @ CHR ''/'' # dec_string 24))
    = (if (24::nat) \<le> 32 then Some (cidr_block 0xC0A80142 24) else None)"
  by (rule parse_cidr_block [OF dotted.inet_text_axioms])

text \<open>
  C14. Whatever is accepted, in whatever spelling, is a block of the 32-bit address
  space: its size is 0 or a power of two, it starts at a multiple of its size, it does not run over
  the end of the address space, and unless it is empty it contains the address that was parsed.
\<close>

theorem parse_cidr_sound:
  assumes "parse_cidr pton input = Some (b, c)"
  shows "unat b + unat c \<le> 2 ^ 32 \<and> unat c \<le> 2 ^ 31 \<and>
    (c = 0 \<and> b = 0 \<or>
     (\<exists>k\<le>31. unat c = 2 ^ k \<and> 2 ^ k dvd unat b) \<and>
     (\<exists>s i a. input = Some s \<and> pton (take i s) = Some a \<and> unat b \<le> unat (ntohl a) \<and>
        unat (ntohl a) < unat b + unat c))"
  using assms
proof (cases rule: parse_cidr_SomeE)
  case (single s a)
  then have "unat b + unat c \<le> 2 ^ 32" using parse_cidr_scan [OF assms] by simp
  with single show ?thesis
    by (intro conjI disjI2 exI [of _ 0] exI [of _ s] exI [of _ "length s"] exI [of _ a]) auto
next
  case (block s i a p)
  show ?thesis
  proof (cases "p = 0")
    case True
    then have "b = 0" "c = 0"
      using block(5) cidr_count_0 [of "ntohl a"] cidr_base_0 [of "ntohl a"] by (metis fst_conv snd_conv)+
    then show ?thesis by simp
  next
    case False
    note B = cidr_block_bounds [OF _ block(4) block(5) [symmetric]]
    have k: "unat c = 2 ^ (32 - p)" using unat_cidr_count [of p "ntohl a"] block(5) False by (metis gr0I snd_conv)
    have "unat b = unat (ntohl a) div 2 ^ (32 - p) * 2 ^ (32 - p)"
      using unat_cidr_base [of "ntohl a" p] block(5) by (metis fst_conv)
    then have "2 ^ (32 - p) dvd unat b" by simp
    with k B block False show ?thesis
      by (intro conjI disjI2 exI [of _ "32 - p"] exI [of _ s] exI [of _ i] exI [of _ a]) auto
  qed
qed

theorem parse_cidr_sound_witness:
  "unat (0xC0A80100 :: u32) + unat (0x100 :: u32) \<le> 2 ^ 32 \<and> unat (0x100 :: u32) \<le> 2 ^ 31 \<and>
    ((0x100 :: u32) = 0 \<and> (0xC0A80100 :: u32) = 0 \<or>
     (\<exists>k\<le>31. unat (0x100 :: u32) = 2 ^ k \<and> 2 ^ k dvd unat (0xC0A80100 :: u32)) \<and>
     (\<exists>s i a. Some (dotted_ntop (htonl 0xC0A80142) @ CHR ''/'' # dec_string 24) = Some s \<and>
        dotted_pton (take i s) = Some a \<and> unat (0xC0A80100 :: u32) \<le> unat (ntohl a) \<and>
        unat (ntohl a) < unat (0xC0A80100 :: u32) + unat (0x100 :: u32)))"
  by (rule parse_cidr_sound) (simp add: dotted.parse_cidr_ntop cidr_block_def)

text \<open>
  C23. The boundary of the block size: prefix 0 is accepted, its host count
  wraps to 0, and a ping scan of no hosts returns at once, with no result and without a system call.
\<close>

theorem prefix_zero_scans_nothing:
  assumes "inet_text pton ntop" and "total_hosts s = 0"
  shows "parse_cidr pton (Some (ntop (htonl a) @ ''/0'')) = Some (0, 0) \<and>
    (\<exists>st'. run os pad s st = Some (Inr (scan_result st', st')) \<and> hosts (scan_result st') = [] \<and> world st' = world st)"
proof -
  have "dec_string 0 = ''0''" by (simp add: dec_string.simps digit_char_def char_of_def bit_0)
  then have "parse_cidr pton (Some (ntop (htonl a) @ ''/0'')) = Some (cidr_block a 0)"
    using inet_text.parse_cidr_ntop [OF assms(1), of a 0] by simp
  moreover have "cidr_block a 0 = (0, 0)" using cidr_count_0 [of a] cidr_base_0 [of a] by (metis prod.collapse)
  moreover have "run os pad s st = Some (Inr (scan_result (run_reset s st), run_reset s st))"
    using assms(2) by (simp add: run_def run_loop.simps) (simp add: run_reset_def)
  moreover have "hosts (scan_result (run_reset s st)) = []" "world (run_reset s st) = world st"
    by (simp_all add: scan_result_def run_reset_def)
  ultimately show ?thesis by auto
qed

theorem prefix_zero_scans_nothing_witness:
  "parse_cidr dotted_pton (Some (dotted_ntop (htonl 0x0A000001) @ ''/0'')) = Some (0, 0) \<and>
    (\<exists>st'. run sim_os 0 (sim_scanner\<lparr>total_hosts := 0\<rparr>) sim_fresh = Some (Inr (scan_result st', st')) \<and>
       hosts (scan_result st') = [] \<and> world st' = world sim_fresh)"
  by (rule prefix_zero_scans_nothing [OF dotted.inet_text_axioms]) simp

text \<open>
  C24. The text \<open>format_ip\<close> prints for a result, given back as a target, names
  that host and nothing else.
\<close>

theorem format_parse_roundtrip:
  assumes "inet_text pton ntop"
  shows "parse_cidr pton (Some (format_ip ntop a buf INET_ADDRSTRLEN)) = Some (a, 1)"
  by (rule inet_text.format_ip_parse [OF assms])

theorem format_parse_roundtrip_witness:
  "parse_cidr dotted_pton (Some (format_ip dotted_ntop 0xC0A80142 [] INET_ADDRSTRLEN)) = Some (0xC0A80142, 1)"
  by (rule format_parse_roundtrip [OF dotted.inet_text_axioms])

text \<open>
  C22. \<open>NetworkInterface::fetch\<close> gives back the descriptors it opened on every path; what
  it returns is nothing, or an interface whose subnet contains its own address, flagged local exactly
  when some target lies in the subnet.
\<close>

theorem local_overlap:
  assumes "fetch os tb n w = (i, w')" and "unat tb + unat n \<le> 2 ^ 32" and "n \<noteq> 0"
  shows "led w' = led w \<and>
    (i = no_interface \<or>
     network_ip i \<le> ip_address i \<and> ip_address i \<le> broadcast_ip i \<and>
     (is_local i \<longleftrightarrow> (\<exists>t. unat tb \<le> unat t \<and> unat t < unat tb + unat n \<and>
        network_ip i \<le> t \<and> t \<le> broadcast_ip i)))"
proof -
  note E = block_end [OF assms(2,3)]
  have range: "tb \<le> t \<and> t \<le> tb + (n - 1) \<longleftrightarrow> unat tb \<le> unat t \<and> unat t < unat tb + unat n" for t
  proof -
    have "unat n \<noteq> 0" using assms(3) by (simp add: unat_eq_0)
    with E(1) show ?thesis by (auto simp: word_le_nat_alt)
  qed
  have "is_local i \<longleftrightarrow> (\<exists>t. unat tb \<le> unat t \<and> unat t < unat tb + unat n \<and>
      network_ip i \<le> t \<and> t \<le> broadcast_ip i)" if "subnet_of l tb (tb + (n - 1)) i" for l
  proof -
    have "network_ip i \<le> broadcast_ip i" using that by (auto simp: subnet_of_def)
    from intervals_meet [OF E(2) this]
    have "is_local i \<longleftrightarrow> (\<exists>t. (tb \<le> t \<and> t \<le> tb + (n - 1)) \<and> network_ip i \<le> t \<and> t \<le> broadcast_ip i)"
      using that by (simp add: subnet_of_def conj_assoc)
    then show ?thesis by (simp only: range conj_assoc)
  qed
  then show ?thesis
    using fetch_led [OF assms(1)] fetch_cases [OF assms(1)] assms(3) by (auto simp: subnet_of_def)
qed

theorem local_overlap_witness:
  "led sim_start = led sim_start \<and>
    (lan = no_interface \<or>
     network_ip lan \<le> ip_address lan \<and> ip_address lan \<le> broadcast_ip lan \<and>
     (is_local lan \<longleftrightarrow> (\<exists>t. unat (0xC0A80180 :: u32) \<le> unat t \<and>
        unat t < unat (0xC0A80180 :: u32) + unat (16 :: u32) \<and> network_ip lan \<le> t \<and> t \<le> broadcast_ip lan)))"
  by (rule local_overlap [OF lan_fetch]) simp_all

end
