(* ===== verification/Ping_Properties.thy ===== *)
theory Ping_Properties
  imports Loopback
begin

text \<open>
  The properties of the parts of \<open>PingScanner\<close>: its tables and counters, sending, receiving and
  reaping. Each is followed by a run of it on the small kernel of \<open>Loopback\<close>.
\<close>

section \<open>Tables and numbers\<close>

text \<open>
  C11. Releasing a slot keeps the probe table and the host table in agreement,
  whatever the slot number, and takes exactly the probe of that slot out of flight; the count of
  active probes stays the number of addresses in flight.
\<close>

theorem release_probe_slot_exact:
  assumes "scanner_ok s" and "table_inv s st"
  shows "table_inv s (release_probe_slot s slot st) \<and>
    inflight (release_probe_slot s slot st) =
      (if 0 \<le> slot \<and> nat slot < max_probes s \<and> active (probe_table st ! nat slot)
       then inflight st - {dest_ip (probe_table st ! nat slot)} else inflight st) \<and>
    active_probes (release_probe_slot s slot st) = card (inflight (release_probe_slot s slot st))"
proof -
  have inv: "table_inv s (release_probe_slot s slot st)"
    using vacate_inv [OF assms] assms(2) by (simp add: release_probe_slot_eq [OF assms])
  then show ?thesis
    using vacate_inflight [OF assms(2)] active_probes_inflight [OF inv]
    by (simp add: release_probe_slot_eq [OF assms])
qed

theorem release_probe_slot_exact_witness:
  "table_inv sim_scanner (release_probe_slot sim_scanner 0 sim_sent) \<and>
    inflight (release_probe_slot sim_scanner 0 sim_sent) =
      (if (0::int) \<le> 0 \<and> nat 0 < max_probes sim_scanner \<and> active (probe_table sim_sent ! nat 0)
       then inflight sim_sent - {dest_ip (probe_table sim_sent ! nat 0)} else inflight sim_sent) \<and>
    active_probes (release_probe_slot sim_scanner 0 sim_sent)
      = card (inflight (release_probe_slot sim_scanner 0 sim_sent))"
  by (rule release_probe_slot_exact [OF sim_scanner_ok(1)])
    (simp add: table_inv_def count_active_def sim_probe_def in_range_def host_no_def host_ip_def)

text \<open>
  C12. The sequence numbers: from any counter value, the first 65535 numbers that
  are given out are all different and none of them is zero.
\<close>

theorem sequences_distinct:
  assumes "k \<le> 65535"
  shows "distinct (sequences k n) \<and> 0 \<notin> set (sequences k n)"
proof -
  obtain m where m: "sequences k n = map (seq_at m) [0..<k]"
  proof (cases "n = 0")
    case True
    have "sequences k 0 = sequences k (1 :: u16)"
      by (cases k) (simp_all add: allocate_sequence_def Let_def)
    moreover have "1 = seq_at 0 0" by (simp add: seq_at_def)
    ultimately show thesis using True sequences_seq_at [of k 0] that by metis
  next
    case False
    then have "0 < unat n" "unat n < 65536" using unat_u16_lt [of n] by (simp_all add: unat_gt_0)
    then have "n = seq_at (unat n - 1) 0"
      by (subst word_unat_eq_iff) (simp add: unat_seq_at)
    then show thesis using sequences_seq_at [of k "unat n - 1"] that by metis
  qed
  have "inj_on (seq_at m) {0..<k}"
  proof (rule inj_onI)
    fix i j assume "i \<in> {0..<k}" "j \<in> {0..<k}" and eq: "seq_at m i = seq_at m j"
    then have ij: "i < 65535" "j < 65535" using assms by auto
    have "(m + i) mod 65535 = (m + j) mod 65535"
      using arg_cong [OF eq, of unat] unfolding unat_seq_at by (rule add_right_imp_eq)
    with ij show "i = j" by (rule mod_shift_inj)
  qed
  moreover have "0 \<noteq> seq_at m i" for i using unat_seq_at [of m i] by (auto simp: unat_eq_0 [symmetric])
  ultimately show ?thesis by (auto simp: m distinct_map)
qed

theorem sequences_distinct_witness: "distinct (sequences 3 65534) \<and> 0 \<notin> set (sequences 3 65534)"
  by (rule sequences_distinct) simp

text \<open>
  C20. \<open>host_index_for_ip\<close> never wraps: it is the position of an address of the block,
  a number below \<open>total_hosts\<close>, and \<open>-1\<close> for every other address; \<open>host_ip\<close> inverts it.
\<close>

theorem host_index_bounds:
  assumes "scanner_ok s"
  shows "(if in_range s a
     then 0 \<le> host_index_for_ip s a \<and> nat (host_index_for_ip s a) < total_hosts s \<and>
       host_ip s (nat (host_index_for_ip s a)) = a
     else host_index_for_ip s a = -1)"
  by (simp add: host_index_for_ip_eq [OF assms] host_no_less host_ip_host_no)

theorem host_index_bounds_witness:
  "(if in_range sim_scanner 0x0A000001
     then 0 \<le> host_index_for_ip sim_scanner 0x0A000001 \<and>
       nat (host_index_for_ip sim_scanner 0x0A000001) < total_hosts sim_scanner \<and>
       host_ip sim_scanner (nat (host_index_for_ip sim_scanner 0x0A000001)) = 0x0A000001
     else host_index_for_ip sim_scanner 0x0A000001 = -1)"
  by (rule host_index_bounds [OF sim_scanner_ok(1)])


text \<open>
  C21. On clock readings the kernel gives, no operation of the elapsed-time expression
  that both scanners use overflows: it is the exact difference in nanoseconds, and that fits an
  \<^verbatim>\<open>int64_t\<close>.
\<close>

theorem elapsed_time_exact:
  assumes "clock_ok now" and "clock_ok t"
  shows "diff_ns now t = Some (ns_of now - ns_of t) \<and> fits64 (ns_of now - ns_of t)"
  using diff_ns_exact [OF assms] diff_ns_fits by simp

theorem elapsed_time_exact_witness:
  "diff_ns \<lparr>tv_sec = 2, tv_nsec = 5\<rparr> \<lparr>tv_sec = 1, tv_nsec = 999999999\<rparr>
     = Some (ns_of \<lparr>tv_sec = 2, tv_nsec = 5\<rparr> - ns_of \<lparr>tv_sec = 1, tv_nsec = 999999999\<rparr>) \<and>
   fits64 (ns_of \<lparr>tv_sec = 2, tv_nsec = 5\<rparr> - ns_of \<lparr>tv_sec = 1, tv_nsec = 999999999\<rparr>)"
  by (rule elapsed_time_exact) (simp_all add: clock_ok_def NANOSECONDS_PER_SECOND_LL_def)

section \<open>Sending\<close>

text \<open>
  C5. A batch is filled without a fault: the probes are the wanted hosts among those
  passed by, in order; message \<open>j\<close> goes to host \<open>j\<close> of them and carries its echo request with a
  sequence number other than zero; and filling stops only when hosts, slots or places run out.
\<close>

theorem populate_batch:
  assumes "scanner_ok s" and "packet_ok s" and "table_inv s st" and "buf_inv s st"
    and "next_host_idx st \<le> total_hosts s"
  shows "\<exists>st' new. populate_batch_entries os pad s ts (st, 0) = Inr (st', length new) \<and>
    new = filter (wanted s st) (map (host_ip s) [next_host_idx st..<next_host_idx st']) \<and>
    inflight st' = inflight st \<union> set new \<and> active_probes st' = active_probes st + length new \<and>
    (\<forall>j<length new. \<exists>pid16 q. q \<noteq> 0 \<and>
       message_at st' j = \<lparr>tx_addr = htonl (new ! j), tx_data = echo_request s pid16 pad (new ! j) q ts\<rparr>) \<and>
    (total_hosts s \<le> next_host_idx st' \<or> max_probes s \<le> active_probes st' \<or> send_batch_size s \<le> length new)"
proof -
  have "batch_inv s pad ts st []" by (simp add: batch_inv_def)
  from populate_spec [OF assms(1-4) this assms(5), of os] obtain st' new where
    P: "populate_batch_entries os pad s ts (st, 0) = Inr (st', length new)"
      "populated s pad ts st [] st' new" "batch_full s st' (length new)" by auto
  have "\<exists>pid16 q. q \<noteq> 0 \<and> message_at st' j = \<lparr>tx_addr = htonl (new ! j),
      tx_data = echo_request s pid16 pad (new ! j) q ts\<rparr>" if "j < length new" for j
  proof -
    have "batch_entry s pad ts st' j (new ! j)" using P(2) that unfolding populated_def batch_inv_def append_Nil by blast
    then show ?thesis by (rule batch_entry_message) blast
  qed
  with P show ?thesis
    by (intro exI [of _ st'] exI [of _ new]) (simp add: populated_def batch_full_def)
qed

theorem populate_batch_witness:
  "\<exists>st' new. populate_batch_entries sim_os 0 sim_scanner \<lparr>tv_sec = 1, tv_nsec = 1000000\<rparr> (sim_fresh, 0) = Inr (st', length new) \<and>
    new = filter (wanted sim_scanner sim_fresh)
      (map (host_ip sim_scanner) [next_host_idx sim_fresh..<next_host_idx st']) \<and>
    inflight st' = inflight sim_fresh \<union> set new \<and>
    active_probes st' = active_probes sim_fresh + length new \<and>
    (\<forall>j<length new. \<exists>pid16 q. q \<noteq> 0 \<and> message_at st' j = \<lparr>tx_addr = htonl (new ! j),
       tx_data = echo_request sim_scanner pid16 0 (new ! j) q
         \<lparr>tv_sec = 1, tv_nsec = 1000000\<rparr>\<rparr>) \<and>
    (total_hosts sim_scanner \<le> next_host_idx st' \<or> max_probes sim_scanner \<le> active_probes st' \<or>
     send_batch_size sim_scanner \<le> length new)"
  by (rule populate_batch [OF sim_scanner_ok(1,2) sim_table_inv(1,2)]) simp

text \<open>
  C16. Preparing a packet writes inside the buffers: batch position \<open>n\<close> gets the echo
  request, every other slice keeps its bytes, and the buffer keeps its length.
\<close>

theorem prepare_packet:
  assumes "packet_ok s" and "buf_inv s st" and "n < send_count s"
  shows "\<exists>st' pid16. prepare_single_packet os pad s n target sequence ts st = Inr st' \<and>
    length (send_packets st') = length (send_packets st) \<and>
    packet_slice s st' n = Some (echo_request s pid16 pad target sequence ts) \<and>
    (\<forall>j. j \<noteq> n \<longrightarrow> packet_slice s st' j = packet_slice s st j)"
  by (rule prepare_single_packet_spec [OF assms, of os pad target sequence ts]) (auto simp: packet_slice_def)

theorem prepare_packet_witness:
  "\<exists>st' pid16. prepare_single_packet sim_os 0 sim_scanner 0 0x0A000001 7 \<lparr>tv_sec = 1, tv_nsec = 2\<rparr> sim_fresh = Inr st' \<and>
    length (send_packets st') = length (send_packets sim_fresh) \<and>
    packet_slice sim_scanner st' 0 = Some (echo_request sim_scanner pid16 0 0x0A000001 7 \<lparr>tv_sec = 1, tv_nsec = 2\<rparr>) \<and>
    (\<forall>j. j \<noteq> 0 \<longrightarrow> packet_slice sim_scanner st' j = packet_slice sim_scanner sim_fresh j)"
  by (rule prepare_packet [OF sim_scanner_ok(2) sim_table_inv(2)]) (simp add: send_count_def)





section \<open>Receiving\<close>

text \<open>
  C6. A reply to a request of this scan, arriving while the host is not yet found:
  the host is recorded with the time between sending and receiving as its round-trip time and with
  the hop limit of the control message, and its probe is no longer in flight; nothing overflows.
\<close>

theorem reply_to_own_request:
  assumes "scanner_ok s" and "ping_inv s st" and "in_range s a" and "a \<notin> set (found_ips_cache st)"
    and "clock_ok sent" and "clock_ok now"
    and "m = \<lparr>rx_addr = htonl a, rx_data = ICMP_ECHOREPLY # tl (echo_request s pid16 pad a q sent), rx_cmsgs = cs\<rparr>"
  shows "\<exists>st' r. process_received_packet os s m now hops st = Inr st' \<and>
    scan_results st' = scan_results st @ [r] \<and> ip r = a \<and> ttl r = hops \<and>
    rtt_ms r = max 0 (of_int (ns_of now - ns_of sent) / 1000000) \<and>
    inflight st' = inflight st - {a} \<and> ping_inv s st' \<and>
    echo_replies st' = echo_replies st + 1 \<and> unmatched_replies st' = unmatched_replies st"
proof -
  note M = echo_request_reply [OF assms(7)]
  have "fits64 (tv_sec sent)" "fits64 (tv_nsec sent)"
    using assms(5) by (simp_all add: clock_ok_def fits64_def NANOSECONDS_PER_SECOND_LL_def)
  then have time: "payload_time (reply_payload m) = sent" by (rule M(3))
  have ans: "answers s st m" using assms(3,4) M(1,2) by (simp add: answers_def assms(7))
  define d where "d = ns_of now - ns_of sent"
  let ?c = "counted m st"
  let ?st' = "record_reply os s a (host_no s a) d hops ?c"
  have run: "process_received_packet os s m now hops st = Inr ?st'"
    using ans M(2) time diff_ns_exact [OF assms(6,5)] by (simp add: process_received_packet_eq [OF assms(1)] d_def)
  have c: "?c = st\<lparr>echo_replies := echo_replies st + 1\<rparr>" using M(1) by (simp add: counted_def)
  have "ping_inv s ?c" by (rule received_inv [OF counted_received [OF assms(2)]])
  moreover have "a \<notin> set (found_ips_cache ?c)" using assms(4) unfolding c by simp
  ultimately have rec: "received s ?c ?st'" by (rule record_reply_received(1) [OF assms(1) _ assms(3)])
  obtain r where r: "scan_results ?st' = scan_results ?c @ [r]" "ip r = a" "ttl r = hops" "rtt_ms r = rtt_of d"
    and counters: "echo_replies ?st' = echo_replies ?c" "unmatched_replies ?st' = unmatched_replies ?c"
    by (rule record_reply_result)
  from rec r have "inflight ?st' = inflight ?c - {a}" by (auto simp: received_def)
  with run r rec counters show ?thesis
    by (intro exI [of _ ?st'] exI [of _ r])
      (simp add: c rtt_of_def d_def NANOSECONDS_PER_MILLISECOND_LL_def received_def inflight_def)
qed

theorem reply_to_own_request_witness:
  "\<exists>st' r. process_received_packet sim_os sim_scanner
      \<lparr>rx_addr = htonl 0x0A000001, rx_data = ICMP_ECHOREPLY #
         tl (echo_request sim_scanner 1234 0 0x0A000001 1 \<lparr>tv_sec = 1, tv_nsec = 999000000\<rparr>), rx_cmsgs = []\<rparr>
      \<lparr>tv_sec = 2, tv_nsec = 1000000\<rparr> 64 sim_fresh = Inr st' \<and>
    scan_results st' = scan_results sim_fresh @ [r] \<and> ip r = 0x0A000001 \<and> ttl r = 64 \<and>
    rtt_ms r = max 0 (of_int (ns_of \<lparr>tv_sec = 2, tv_nsec = 1000000\<rparr> - ns_of \<lparr>tv_sec = 1, tv_nsec = 999000000\<rparr>) / 1000000) \<and>
    inflight st' = inflight sim_fresh - {0x0A000001} \<and> ping_inv sim_scanner st' \<and>
    echo_replies st' = echo_replies sim_fresh + 1 \<and> unmatched_replies st' = unmatched_replies sim_fresh"
  by (rule reply_to_own_request [OF sim_scanner_ok(1) sim_table_inv(3)])
    (simp_all add: in_range_def clock_ok_def NANOSECONDS_PER_SECOND_LL_def)



section \<open>Reaping\<close>

text \<open>
  C7. The sweep on clock readings the kernel gives: it never overflows, and it takes out
  exactly the probes that are older than the timeout and counts them.
\<close>

theorem reap_exact:
  assumes "scanner_ok s" and "ping_inv s st"
    and "on_env (os_clock_gettime os) (world st) = (now, w)" and "clock_ok now"
    and "\<forall>p\<in>set (probe_table st). active p \<longrightarrow> clock_ok (send_time p)"
  shows "\<exists>st'. reap_timed_out_probes os s st = Inr st' \<and> ping_inv s st' \<and>
    inflight st' = {a \<in> inflight st. \<exists>p\<in>set (probe_table st). active p \<and> dest_ip p = a \<and>
      ns_of now - ns_of (send_time p) \<le> timeout_ns (timeout_ms s)} \<and>
    probe_timeouts st' = probe_timeouts st + word_of_nat (card (inflight st) - card (inflight st')) \<and>
    scan_results st' = scan_results st"
proof -
  let ?st1 = "st\<lparr>world := w\<rparr>" and ?t = "probe_table st" and ?D = "overdue_slots s now st"
  note I = ping_invD [OF assms(2)]
  have due: "overdue s now p \<longleftrightarrow> active p \<and> timeout_ns (timeout_ms s) < ns_of now - ns_of (send_time p)"
    if "p \<in> set ?t" for p
    using diff_ns_exact [OF assms(4)] assms(5) that by (auto simp: overdue_def)
  have "\<exists>st'. reap_slots s now [0..<length (probe_table ?st1)] ?st1 = Inr st'"
    by (rule reap_slots_total [OF assms(4)]) (use assms(5) in auto)
  then obtain st' where run: "reap_timed_out_probes os s st = Inr st'"
    using assms(3) by (auto simp: reap_timed_out_probes_def)
  obtain now' w' where "on_env (os_clock_gettime os) (world st) = (now', w')"
    and "reaped s now' [0..<max_probes s] (st\<lparr>world := w'\<rparr>) st'"
    by (rule reap_timed_out_probes_reaped [OF assms(1,2) run])
  then have R: "reaped s now [0..<max_probes s] ?st1 st'" using assms(3) by simp
  then have out: "inflight st' = inflight st - (\<lambda>i. dest_ip (?t ! i)) ` ?D"
    and cnt: "probe_timeouts st' = probe_timeouts st + word_of_nat (card ?D)"
    by (auto simp: reaped_def inflight_def overdue_slots_def length_filter_upt)
  note S = overdue_slots_inflight [OF I(1), of now]
  have "card (inflight st) - card (inflight st') = card ?D" using out S(1) by simp
  moreover have "inflight st' = {a \<in> inflight st. \<exists>p\<in>set ?t. active p \<and> dest_ip p = a \<and>
      ns_of now - ns_of (send_time p) \<le> timeout_ns (timeout_ms s)}"
    unfolding out S(2) using due by (auto simp: not_less)
  ultimately show ?thesis using run R cnt by (auto simp: reaped_def)
qed

theorem reap_exact_witness:
  "\<exists>st'. reap_timed_out_probes sim_os sim_scanner sim_late = Inr st' \<and> ping_inv sim_scanner st' \<and>
    inflight st' = {a \<in> inflight sim_late. \<exists>p\<in>set (probe_table sim_late). active p \<and> dest_ip p = a \<and>
      ns_of \<lparr>tv_sec = 5, tv_nsec = 0\<rparr> - ns_of (send_time p) \<le> timeout_ns (timeout_ms sim_scanner)} \<and>
    probe_timeouts st' = probe_timeouts sim_late + word_of_nat (card (inflight sim_late) - card (inflight st')) \<and>
    scan_results st' = scan_results sim_late"
  by (rule reap_exact [OF sim_scanner_ok(1) sim_late_inv, of sim_os _ "sim_world [4, 3, 0, 1, 2] 5001000000 [] []"])
    (simp_all add: sim_late_def sim_calls clock_ok_def sim_probe_def)

end
