(* ===== verification/Ping_Scan_Properties.thy ===== *)
theory Ping_Scan_Properties
  imports Loopback
begin

text \<open>
  The properties of a ping scan as a whole: \<open>PingScanner::run\<close>, and the life of a scanner from its
  constructor to its destructor.
\<close>

section \<open>The run\<close>

text \<open>
  C1. Refinement: every run of \<open>PingScanner::run\<close> that returns is a sequence of
  steps of the abstract scan from its start; the hosts it returns, the probes left in flight, the
  next host and the number of timeouts are those of the abstract scan, and the run was cut short
  exactly when hosts or probes are left.
\<close>

theorem ping_run_refines:
  assumes "scanner_ok s" and "packet_ok s" and "sized s st"
    and "run os pad s st = Some (Inr (res, st'))"
  shows "\<exists>a. (scan_step s)\<^sup>*\<^sup>* scan_start a \<and> a_found a = map ip (hosts res) \<and>
    a_inflight a = inflight st' \<and> a_next a = next_host_idx st' \<and>
    total_probe_timeouts res = word_of_nat (length (a_expired a)) \<and>
    (a_stopped a \<longleftrightarrow> \<not> (next_host_idx st' = total_hosts s \<and> active_probes st' = 0))"
proof -
  have "res = scan_result st'" "scan_done s (led (world st)) scan_start st'"
    using run_spec [OF assms] by simp_all
  then show ?thesis by (auto simp: scan_done_def abs_rel_def scan_result_def)
qed

theorem ping_run_refines_witness:
  "\<exists>a. (scan_step sim_scanner)\<^sup>*\<^sup>* scan_start a \<and> a_found a = map ip (hosts sim_result) \<and>
    a_inflight a = inflight sim_end \<and> a_next a = next_host_idx sim_end \<and>
    total_probe_timeouts sim_result = word_of_nat (length (a_expired a)) \<and>
    (a_stopped a \<longleftrightarrow> \<not> (next_host_idx sim_end = total_hosts sim_scanner \<and> active_probes sim_end = 0))"
  by (rule ping_run_refines [OF sim_scanner_ok(1,2) sim_sized sim_run])



text \<open>
  C3. What is reported: a host at most once, only addresses of the block, no negative
  round-trip time, and the callback was given exactly the results that are returned.
\<close>

theorem ping_run_results:
  assumes "scanner_ok s" and "packet_ok s" and "sized s st"
    and "run os pad s st = Some (Inr (res, st'))"
  shows "distinct (map ip (hosts res)) \<and> (\<forall>r\<in>set (hosts res). in_range s (ip r) \<and> 0 \<le> rtt_ms r) \<and>
    reported st' = (if has_callback s then hosts res else []) \<and>
    led (world st') = led (world st)"
proof -
  have "res = scan_result st'" "scan_done s (led (world st)) scan_start st'"
    using run_spec [OF assms] by simp_all
  then show ?thesis by (auto simp: scan_done_def ping_inv_def found_inv_def scan_result_def)
qed

theorem ping_run_results_witness:
  "distinct (map ip (hosts sim_result)) \<and>
    in_range sim_scanner (ip sim_hit) \<and> 0 \<le> rtt_ms sim_hit \<and>
    reported sim_end = (if has_callback sim_scanner then hosts sim_result else []) \<and>
    led (world sim_end) = led (world sim_fresh)"
  using ping_run_results [OF sim_scanner_ok(1,2) sim_sized sim_run] sim_hit_in by blast



text \<open>
  C18. Non-termination: with no probe slots, or batches of no packets, and at least one
  host, the scan never returns a result.
\<close>

theorem ping_run_stuck:
  assumes "scanner_ok s" and "packet_ok s" and "sized s st" and "0 < total_hosts s"
    and "max_probes s = 0 \<or> send_batch_size s = 0"
  shows "\<nexists>v. run os pad s st = Some (Inr v)"
proof
  assume "\<exists>v. run os pad s st = Some (Inr v)"
  then obtain st1 where "run_loop os pad s (run_reset s st) = Some (Inr st1)"
    by (auto simp: run_def elim!: seq_InrE)
  from run_loop_stuck [OF this assms(1) run_reset_inv(1) [OF assms(3)] assms(5)] assms(4)
  show False by (simp add: run_reset_def)
qed

theorem ping_run_stuck_witness:
  "\<nexists>v. run sim_os 0 idle_scanner (initialize_buffers idle_scanner sim_start) = Some (Inr v)"
  by (rule ping_run_stuck [OF idle_ok]) simp_all

section \<open>Construction and destruction\<close>

text \<open>
  C13. \<open>initialize_socket\<close> on every path: when it throws, each descriptor it
  opened is closed again, once; when it returns, exactly the socket and the epoll descriptor are open,
  and both are valid.
\<close>

theorem socket_setup_leaks_nothing:
  "case initialize_socket os s w of
     (Inl f, w') \<Rightarrow> led w' = led w
   | (Inr s', w') \<Rightarrow> s' = s\<lparr>sock := sock s', epoll_fd := epoll_fd s'\<rparr> \<and> 0 \<le> sock s' \<and> 0 \<le> epoll_fd s' \<and>
       open_fds (led w') = epoll_fd s' # sock s' # open_fds (led w) \<and>
       bad_closes (led w') = bad_closes (led w)"
  using initialize_socket_led [of os s w] by (auto split: prod.splits sum.splits)

text \<open>
  C8. From constructor to destructor: a scan that returns has closed every descriptor
  it opened and none twice, and what it reports are different addresses of the configured block.
\<close>

theorem ping_session_safe:
  assumes "config_ok config" and "ping_session os pad config w = Some (Inr ((res, shown, t0, t1), w'))"
  shows "led w' = led w \<and> distinct (map ip (hosts res)) \<and>
    (\<forall>r\<in>set (hosts res). unat (cfg_base_ip config) \<le> unat (ip r) \<and>
       unat (ip r) < unat (cfg_base_ip config) + cfg_total_hosts config) \<and>
    shown = (if cfg_result_callback config then hosts res else [])"
  by (rule ping_session_spec [OF assms])
    (auto simp: scan_done_def ping_inv_def found_inv_def scan_result_def in_range_def)

theorem ping_session_safe_witness:
  "led (sim_world [0, 1, 2] 1005000000 [] []) = led sim_start \<and> distinct (map ip (hosts sim_result)) \<and>
    unat (cfg_base_ip sim_config) \<le> unat (ip sim_hit) \<and>
    unat (ip sim_hit) < unat (cfg_base_ip sim_config) + cfg_total_hosts sim_config \<and>
    [sim_hit] = (if cfg_result_callback sim_config then hosts sim_result else [])"
  using ping_session_safe [OF sim_scanner_ok(3) sim_ping_session] sim_hit_in by blast

end
