(* ===== verification/Tcp_Properties.thy ===== *)
theory Tcp_Properties
  imports Loopback
begin

text \<open>
  The properties of \<open>TcpScanner\<close>, each followed by a run of it on the small kernel of \<open>Loopback\<close>.
\<close>

section \<open>The scan as a whole\<close>

text \<open>
  C25. From constructor to destructor: a TCP scan that returns has every descriptor
  closed that it opened, none twice; it reports different addresses of the configured block, each with
  the target port and a round-trip time that is not negative, and the callback was given the same.
\<close>

theorem tcp_session_safe:
  assumes "tcp_config_ok config" and "tcp_session os config w = Some (Inr ((rs, shown, t0, t1), w'))"
  shows "mset (open_fds (led w')) = mset (open_fds (led w)) \<and> bad_closes (led w') = bad_closes (led w) \<and>
    distinct (map ip rs) \<and> shown = (if tcfg_result_callback config then rs else []) \<and>
    (\<forall>r\<in>set rs. unat (tcfg_base_ip config) \<le> unat (ip r) \<and>
       unat (ip r) < unat (tcfg_base_ip config) + tcfg_total_hosts config \<and>
       port r = tcfg_target_port config \<and> 0 \<le> rtt_ms r)"
proof (rule tcp_session_spec [OF assms])
  fix s and st' :: "'a tcp_state"
  assume S: "rs = t_scan_results st'" "scanner_ok s" "base_ip s = tcfg_base_ip config"
    "total_hosts s = tcfg_total_hosts config" "target_port s = tcfg_target_port config"
    "tcp_done s (led (t_world st')) st'" "mset (open_fds (led w')) = mset (open_fds (led w))"
    "bad_closes (led w') = bad_closes (led w)" "shown = (if tcfg_result_callback config then rs else [])"
  then have inv: "tcp_inv s (led (t_world st')) st'" by (simp add: tcp_done_def)
  have "in_range s (ip r)" if "r \<in> set rs" for r
    using tcp_inv_results(2) [OF inv] that S(1,2) tried_in_range [of s st'] inv by (auto simp: tcp_inv_def)
  with S inv tcp_inv_results(1) [OF inv] show ?thesis by (auto simp: tcp_inv_def in_range_def)
qed

theorem tcp_session_safe_witness:
  "mset (open_fds (led (sim_world [0, 1, 2] 1005000000 [] []))) = mset (open_fds (led sim_start)) \<and>
    bad_closes (led (sim_world [0, 1, 2] 1005000000 [] [])) = bad_closes (led sim_start) \<and>
    distinct (map ip [sim_port]) \<and> [sim_port] = (if tcfg_result_callback sim_tcp_config then [sim_port] else []) \<and>
    unat (tcfg_base_ip sim_tcp_config) \<le> unat (ip sim_port) \<and>
    unat (ip sim_port) < unat (tcfg_base_ip sim_tcp_config) + tcfg_total_hosts sim_tcp_config \<and>
    port sim_port = tcfg_target_port sim_tcp_config \<and> 0 \<le> rtt_ms sim_port"
  using tcp_session_safe [OF sim_tcp_config_ok sim_tcp_session] by auto

text \<open>
  C26. In every state that starting connections, handling events and reaping reach
  from a new scanner, in whatever order they are called: a host is at most once in flight or found,
  at most \<open>max_probes\<close> are in flight, and the open descriptors are those that were open before, the
  epoll descriptor and one socket for each probe in flight.
\<close>

theorem tcp_reachable_safe:
  assumes "tcp_config_ok config" and "TcpScanner_new os config w = (Inr (s, st0), w')"
    and "(tcp_step os s)\<^sup>*\<^sup>* st0 st"
  shows "distinct (map ip (t_scan_results st) @ map dest_ip (filter active (t_probe_table st))) \<and>
    t_active_probes st = length (filter active (t_probe_table st)) \<and> t_active_probes st \<le> max_probes s \<and>
    mset (open_fds (led (t_world st))) = add_mset (epoll_fd s) (mset (open_fds (led w))) +
      mset (map tcp_sock (filter active (t_probe_table st))) \<and>
    bad_closes (led (t_world st)) = bad_closes (led w)"
proof -
  from TcpScanner_new_cases [OF assms(2,1)]
  have new: "scanner_ok s" "tcp_inv s (led w') st0" "open_fds (led w') = epoll_fd s # open_fds (led w)"
    "bad_closes (led w') = bad_closes (led w)" by auto
  have inv: "tcp_inv s (led w') st" by (rule tcp_steps_inv [OF assms(3) new(1,2)])
  have "distinct (map ip (t_scan_results st) @ map dest_ip (filter active (t_probe_table st)))"
  proof (rule distinct_if_once)
    fix a
    show "count (mset (map ip (t_scan_results st) @ map dest_ip (filter active (t_probe_table st)))) a \<le> 1"
      using tcp_inv_once [OF inv, of a] by (simp add: active_of_def split: if_splits)
  qed
  moreover have "t_active_probes st \<le> max_probes s"
    using inv count_active_le [of "t_probe_table st"] by (simp add: tcp_inv_def)
  ultimately show ?thesis
    using inv new(3,4) by (simp add: tcp_inv_def ledger_inv_def active_of_def count_active_def)
qed

theorem tcp_reachable_safe_witness:
  "distinct (map ip (t_scan_results sim_tcp_sent) @ map dest_ip (filter active (t_probe_table sim_tcp_sent))) \<and>
    t_active_probes sim_tcp_sent = length (filter active (t_probe_table sim_tcp_sent)) \<and>
    t_active_probes sim_tcp_sent \<le> max_probes sim_tcp_scanner \<and>
    mset (open_fds (led (t_world sim_tcp_sent))) = add_mset (epoll_fd sim_tcp_scanner)
      (mset (open_fds (led (sim_world [0, 1, 2] 1001000000 [] [])))) +
      mset (map tcp_sock (filter active (t_probe_table sim_tcp_sent))) \<and>
    bad_closes (led (t_world sim_tcp_sent)) = bad_closes (led (sim_world [0, 1, 2] 1001000000 [] []))"
  by (rule tcp_reachable_safe [OF sim_tcp_config_ok sim_tcp_new sim_tcp_steps])



text \<open>
  C31. Non-termination: with no probe slots, or batches of no connections, and at least one
  host, the scan never returns a result.
\<close>

theorem tcp_run_stuck:
  assumes "scanner_ok s" and "tcp_inv s d0 st" and "count_active (t_probe_table st) = 0"
    and "max_probes s = 0 \<or> batch_size s = 0" and "0 < total_hosts s"
  shows "\<nexists>v. tcp_run os s st = Some (Inr v)"
proof
  assume "\<exists>v. tcp_run os s st = Some (Inr v)"
  then obtain st1 where run: "tcp_run_loop os s (st\<lparr>t_next_host_idx := 0, t_active_probes := 0, t_hosts_found := 0,
            t_scan_results := [], t_reported := []\<rparr>) = Some (Inr st1)"
    by (auto simp: tcp_run_def elim!: seq_InrE)
  note I = tcp_start_inv [OF assms(2,3)]
  from tcp_run_loop_stuck [OF run I assms(4)] assms(5) show False by simp
qed

theorem tcp_run_stuck_witness: "\<nexists>v. tcp_run sim_os idle_tcp sim_tcp_fresh = Some (Inr v)"
  by (rule tcp_run_stuck [OF idle_tcp_ok])
    (simp_all add: idle_tcp_def count_active_def sim_tcp_fresh_def TcpProbe_init_def)

text \<open>
  C@tcp_scan_ends. Termination: when the clock advances, a TCP scan with at least one probe slot and
  batches of at least one connection comes to its end, whatever else the kernel answers.
\<close>

theorem tcp_scan_ends:
  assumes "advancing_clock os now" and "tcp_config_ok config"
    and "0 < tcfg_max_probes config" and "0 < tcfg_batch_size config"
  shows "\<exists>r. tcp_session os config w = Some r"
  using assms(2-4) by (rule advancing_clock.tcp_session_returns [OF assms(1)])

theorem tcp_scan_ends_witness: "\<exists>r. tcp_session sim_os sim_tcp_config sim_start = Some r"
  by (rule tcp_scan_ends [OF sim_time.advancing_clock_axioms sim_tcp_config_ok]) (simp_all add: sim_tcp_config_def)

section \<open>The operations\<close>

text \<open>
  C29. Starting a connection, on every path: it ends without a connection and the
  descriptors are as they were, or with one more descriptor, which is the socket that is handed on;
  it is faulty only when a socket was opened and the buffer size does not fit an \<^verbatim>\<open>int\<close>.
\<close>

theorem connection_gives_back:
  "case connect_socket os s target slot w of
     Inl f \<Rightarrow> f = Signed_overflow \<and> tcp_buf_size s = None
   | Inr (None, w') \<Rightarrow> led w' = led w
   | Inr (Some fd, w') \<Rightarrow> 0 \<le> fd \<and> open_fds (led w') = fd # open_fds (led w) \<and>
       bad_closes (led w') = bad_closes (led w)"
proof (cases "connect_socket os s target slot w")
  case (Inl f)
  then have "f = Signed_overflow \<and> tcp_buf_size s = None"
    by (auto simp: connect_socket_def Let_def split: prod.splits if_splits option.splits)
  with Inl show ?thesis by simp
next
  case (Inr r)
  obtain q w' where r: "r = (q, w')" by (metis surj_pair)
  with Inr connect_socket_led [of os s target slot w q w'] show ?thesis by (cases q) auto
qed

text \<open>
  C32. The buffer size asked of the kernel is 1024 bytes for each probe, and can be
  computed without overflow exactly for fewer than \<open>2 ^ 21\<close> probes.
\<close>

theorem tcp_buffer_bound:
  assumes "max_probes s < 2 ^ 31"
  shows "tcp_buf_size s = (if max_probes s < 2 ^ 21 then Some (1024 * int (max_probes s)) else None)"
  using assms by (auto simp: tcp_buf_size_def Let_def)

theorem tcp_buffer_bound_witness:
  "tcp_buf_size sim_tcp_scanner = (if max_probes sim_tcp_scanner < 2 ^ 21
     then Some (1024 * int (max_probes sim_tcp_scanner)) else None)"
  by (rule tcp_buffer_bound) simp

text \<open>
  C27. An event for a probe in flight: its socket is closed, once, and its slot is free
  again; the host is found, with the target port and the time since the connection was started as its
  round-trip time, if the pending error of the socket is 0, and is not found otherwise; nothing
  overflows on clock readings the kernel gives.
\<close>

theorem tcp_event_exact:
  assumes "tcp_inv s d0 st" and "i = unat (ep_data ev)" and "i < max_probes s"
    and "p = t_probe_table st ! i" and "active p"
    and "on_env (os_getsockopt_error os (tcp_sock p)) (t_world st) = ((r, e, v), w1)"
    and "on_env (os_clock_gettime os) (sys_close os (tcp_sock p)
      (snd (sys_call os (Epoll_ctl (epoll_fd s) EPOLL_CTL_DEL (tcp_sock p) None) w1))) = (now, w2)"
    and "clock_ok now" and "clock_ok (send_time p)"
  shows "\<exists>buf' st'. poll_one os s ev (buf, st) = Inr (buf', st') \<and> tcp_inv s d0 st' \<and>
    t_probe_table st' = (t_probe_table st)[i := p\<lparr>active := False\<rparr>] \<and>
    led (t_world st') = led_step (Close (tcp_sock p)) 0 (led (t_world st)) \<and>
    (if (if r < 0 then e else v) = 0
     then \<exists>res. t_scan_results st' = t_scan_results st @ [res] \<and> ip res = dest_ip p \<and>
       port res = target_port s \<and> rtt_ms res = rtt_of (ns_of now - ns_of (send_time p))
     else t_scan_results st' = t_scan_results st)"
proof -
  have i: "i < length (t_probe_table st)" "active (t_probe_table st ! i)"
    using assms(1,3-5) by (simp_all add: tcp_inv_def)
  note d = diff_ns_exact [OF assms(8,9)]
  have led: "led w2 = led_step (Close (tcp_sock (t_probe_table st ! i))) 0 (led (t_world st))"
    using on_env_led [OF assms(6)] on_env_led [OF assms(7)] assms(4) by simp
  note D = drop_probe_inv [OF assms(1) i led]
  note run = poll_one_active [OF assms(2) i(1) assms(4-7), of buf, unfolded d option.case]
  show ?thesis
  proof (cases "(if r < 0 then e else v) = 0")
    case False
    then have "poll_one os s ev (buf, st) = Inr (buf, drop_probe i w2 st)" using run by simp
    with False led D(1) assms(4) show ?thesis by (auto simp: drop_probe_def)
  next
    case True
    then have one: "poll_one os s ev (buf, st)
        = Inr (report_open os s p (ns_of now - ns_of (send_time p)) (buf, drop_probe i w2 st))"
      using run by simp
    obtain buf' st' where R: "report_open os s p (ns_of now - ns_of (send_time p)) (buf, drop_probe i w2 st) = (buf', st')"
      by (metis surj_pair)
    have inv: "tcp_inv s d0 st'" using poll_one_inv [OF one [unfolded R] assms(1)] .
    have "dest_ip p \<notin> ip ` set (t_scan_results (drop_probe i w2 st))"
      using D(2) assms(4) by (simp add: drop_probe_def)
    then show ?thesis
      by (rule report_open_new [where os = os and s = s and buf = buf and d = "ns_of now - ns_of (send_time p)"])
        (use True one R inv led assms(4) in \<open>auto simp: drop_probe_def\<close>)
  qed
qed

theorem tcp_event_exact_witness:
  "\<exists>buf' st'. poll_one sim_os sim_tcp_scanner \<lparr>ep_events = 4, ep_data = 0\<rparr> ([], sim_tcp_sent) = Inr (buf', st') \<and>
    tcp_inv sim_tcp_scanner (led (t_world sim_tcp_fresh)) st' \<and>
    t_probe_table st' = (t_probe_table sim_tcp_sent)[0 := sim_tcp_probe\<lparr>active := False\<rparr>] \<and>
    led (t_world st') = led_step (Close (tcp_sock sim_tcp_probe)) 0 (led (t_world sim_tcp_sent)) \<and>
    (if (if (0::int) < 0 then 0 else 0) = (0::int)
     then \<exists>res. t_scan_results st' = t_scan_results sim_tcp_sent @ [res] \<and> ip res = dest_ip sim_tcp_probe \<and>
       port res = target_port sim_tcp_scanner \<and>
       rtt_ms res = rtt_of (ns_of \<lparr>tv_sec = 1, tv_nsec = 2000000\<rparr> - ns_of (send_time sim_tcp_probe))
     else t_scan_results st' = t_scan_results sim_tcp_sent)"
  by (rule tcp_event_exact [OF sim_tcp_sent_inv, where ?w1.0 = "t_world sim_tcp_sent" and ?w2.0 = "sim_world [4, 0, 1, 2] 1003000000 [] [\<lparr>ep_events = 0x1C, ep_data = 0\<rparr>]"])
    (simp_all add: sim_calls clock_ok_def)

text \<open>
  C28. The sweep on clock readings the kernel gives: the probes that stay in flight are
  those not older than the timeout, in their order; the sockets of the others are closed, each once;
  results and the next host do not change.
\<close>

theorem tcp_reap_exact:
  assumes "tcp_inv s d0 st" and "on_env (os_clock_gettime os) (t_world st) = (now, w)" and "clock_ok now"
    and "\<forall>p\<in>set (t_probe_table st). active p \<longrightarrow> clock_ok (send_time p)"
  shows "\<exists>st'. tcp_reap_timed_out_probes os s st = Inr st' \<and> tcp_inv s d0 st' \<and>
    filter active (t_probe_table st') =
      filter (\<lambda>p. ns_of now - ns_of (send_time p) \<le> timeout_ns (timeout_ms s)) (filter active (t_probe_table st)) \<and>
    mset (open_fds (led (t_world st))) = mset (open_fds (led (t_world st'))) +
      mset (map tcp_sock (filter (\<lambda>p. timeout_ns (timeout_ms s) < ns_of now - ns_of (send_time p))
        (filter active (t_probe_table st)))) \<and>
    t_scan_results st' = t_scan_results st \<and> t_next_host_idx st' = t_next_host_idx st"
proof (rule tcp_reap_expire [OF assms(2-4), of s])
  fix st' assume R: "tcp_reap_timed_out_probes os s st = Inr st'"
    "t_probe_table st' = map (expire s now) (t_probe_table st)"
    "t_scan_results st' = t_scan_results st" "t_next_host_idx st' = t_next_host_idx st"
  have inv: "tcp_inv s d0 st'" by (rule tcp_reap_inv [OF assms(1) R(1)])
  let ?a = "filter active (t_probe_table st)" and ?late = "\<lambda>p. timeout_ns (timeout_ms s) < ns_of now - ns_of (send_time p)"
  have "mset ?a = mset (filter (\<lambda>p. \<not> ?late p) ?a) + mset (filter ?late ?a)"
    by (rule mset_filter_split)
  then have "image_mset tcp_sock (mset ?a) = image_mset tcp_sock (mset (filter (\<lambda>p. \<not> ?late p) ?a)) +
      image_mset tcp_sock (mset (filter ?late ?a))" by simp
  with inv assms(1) R show ?thesis
    by (intro exI [of _ st']) (simp add: tcp_inv_def ledger_inv_def active_of_def filter_active_expire not_less)
qed

theorem tcp_reap_exact_witness:
  "\<exists>st'. tcp_reap_timed_out_probes sim_os sim_tcp_scanner sim_tcp_late = Inr st' \<and>
    tcp_inv sim_tcp_scanner (led (t_world sim_tcp_fresh)) st' \<and>
    filter active (t_probe_table st') =
      filter (\<lambda>p. ns_of \<lparr>tv_sec = 5, tv_nsec = 0\<rparr> - ns_of (send_time p) \<le> timeout_ns (timeout_ms sim_tcp_scanner))
        (filter active (t_probe_table sim_tcp_late)) \<and>
    mset (open_fds (led (t_world sim_tcp_late))) = mset (open_fds (led (t_world st'))) +
      mset (map tcp_sock (filter (\<lambda>p. timeout_ns (timeout_ms sim_tcp_scanner) < ns_of \<lparr>tv_sec = 5, tv_nsec = 0\<rparr> - ns_of (send_time p))
        (filter active (t_probe_table sim_tcp_late)))) \<and>
    t_scan_results st' = t_scan_results sim_tcp_late \<and> t_next_host_idx st' = t_next_host_idx sim_tcp_late"
  by (rule tcp_reap_exact [OF sim_tcp_late_inv, of sim_os _ "sim_world [3, 4, 0, 1, 2] 5001000000 [] []"])
    (simp_all add: sim_tcp_late_def sim_calls clock_ok_def)

end
