(* ===== verification/Arp_Properties.thy ===== *)
theory Arp_Properties
  imports Loopback
begin

text \<open>
  The properties of the neighbour table: what is read from the kernel, what is kept of it and how it
  is printed.
\<close>

text \<open>
  C34. What the parser makes of the neighbour table as the kernel sends it: when the
  answer is a datagram of well-formed neighbour messages and the message that ends a dump, the table
  has, in order, the entries that the messages describe, and the socket is closed.
\<close>

theorem neighbour_dump:
  assumes "sys_call os (Socket Netlink_socket) w = ((fd, e1), w1)" and "0 \<le> fd"
    and "sys_call os (Send fd neighbour_request) w1 = ((sent, e2), w2)" and "0 \<le> sent"
    and "os_recvmsg os fd rx_buf_size (env w2) = ((int (length d), e3, False, d), v)"
    and "d = put_neighs ns @ put_done sq pid" and "list_all neigh_ok ns" and "length d \<le> rx_buf_size"
  shows "get_arp_table os w =
    (let (es, w3) = fold (neigh_step os) ns ([], w2\<lparr>env := v\<rparr>) in Some (Inr (es, sys_close os fd w3)))"
  by (rule get_arp_table_dump [OF assms])

theorem neighbour_dump_witness:
  "get_arp_table sim_os sim_start =
    (let (es, w3) = fold (neigh_step sim_os) [sim_neigh] ([], (sim_world [3, 0, 1, 2] 1000000000 [] [])
        \<lparr>env := env (sim_world [3, 0, 1, 2] 1000000000 [] [])\<rparr>)
     in Some (Inr (es, sys_close sim_os 3 w3))) \<and>
   get_arp_table sim_os sim_start = Some (Inr ([sim_entry], sim_world [0, 1, 2] 1000000000 [] []))"
  by (rule conjI [OF _ sim_arp_table],
      rule neighbour_dump [where sent = 0, OF _ _ _ _ _ sim_datagram_def sim_neigh_ok])
    (simp_all add: sim_start_def sim_calls sim_datagram_length rx_buf_size_def)

text \<open>
  C35. Whatever the kernel sends, well-formed or not: a table that is returned has no
  unresolved entry and no entry with address zero, a multicast address or the broadcast address, and
  the descriptors are as before the call.
\<close>

theorem arp_table_valid:
  assumes "get_arp_table os w = Some (Inr (es, w'))"
  shows "(\<forall>e\<in>set es. arp_ip e \<noteq> 0 \<and> mac_address e \<noteq> no_mac \<and>
      \<not> (0xE0000000 \<le> arp_ip e \<and> arp_ip e \<le> 0xEFFFFFFF) \<and> arp_ip e \<noteq> 0xFFFFFFFF) \<and> led w' = led w"
  using get_arp_table_ok [OF assms] get_arp_table_led [OF assms] by (auto simp: list_all_iff arp_entry_ok_def)

theorem arp_table_valid_witness:
  "arp_ip sim_entry \<noteq> 0 \<and> mac_address sim_entry \<noteq> no_mac \<and>
    \<not> (0xE0000000 \<le> arp_ip sim_entry \<and> arp_ip sim_entry \<le> 0xEFFFFFFF) \<and> arp_ip sim_entry \<noteq> 0xFFFFFFFF \<and>
    led (sim_world [0, 1, 2] 1000000000 [] []) = led sim_start"
  using arp_table_valid [OF sim_arp_table] by auto

text \<open>
  C37. The length of an address attribute is not checked: one that is only a header
  takes the four bytes that follow it, which are not part of it, for the address.
\<close>

theorem attribute_overread:
  "parse_netlink_attributes (pre @ put_u16 4 @ put_u16 NDA_DST @ put_u32 x @ post) (length pre) 4 (a, mac)
    = Inr (ntohl x, mac)"
proof -
  let ?b = "pre @ put_u16 4 @ put_u16 NDA_DST @ put_u32 x @ post"
  have "rd_u16 ?b (length pre) = Inr 4" by (rule rd_at) simp
  moreover have "rd_u16 ?b (length pre + 2) = Inr NDA_DST"
    using rd_at(1) [of "pre @ put_u16 4" "length pre + 2" NDA_DST "put_u32 x @ post"] by (simp add: c16.length_enc)
  moreover have "rd_u32 ?b (length pre + 4) = Inr x"
    using rd_at(2) [of "pre @ put_u16 4 @ put_u16 NDA_DST" "length pre + 4" x post] by (simp add: c16.length_enc)
  ultimately show ?thesis
    by (subst parse_netlink_attributes.simps)
      (simp add: sizeof_rtattr_def rta_align_def parse_netlink_attributes.simps)
qed

text \<open>
  C36. The neighbour table of \<^verbatim>\<open>main.cpp\<close> and that of \<^verbatim>\<open>arp_table.cpp\<close> are the same text,
  behind a banner, for every answer of the kernel and of the resolver.
\<close>

theorem arp_modes_agree:
  assumes "\<And>a. length (os_inet_ntop os a) < INET_ADDRSTRLEN"
  shows "handle_arp_mode os dns w =
    seq (print_arp_table os dns w) (\<lambda>(out, w1). Some (Inr ((arp_banner dns @ out, 0), w1)))"
  by (rule handle_arp_mode_eq [OF assms])

theorem arp_modes_agree_witness:
  "handle_arp_mode sim_os True sim_start =
    seq (print_arp_table sim_os True sim_start) (\<lambda>(out, w1). Some (Inr ((arp_banner True @ out, 0), w1)))"
  by (rule arp_modes_agree) (simp add: INET_ADDRSTRLEN_def dotted.ntop_fits)

end
