(* ===== verification/Spec2Isabelle.thy ===== *)
theory Spec2Isabelle
  imports Address_Properties Ping_Properties Ping_Scan_Properties Tcp_Properties Arp_Properties
begin

text \<open>
  netscan (\<^verbatim>\<open>src/\<close>) finds the hosts of an IPv4 block, with ICMP echo requests or TCP connections, and
  prints the kernel's neighbour table. This library models all of its C++ code under \<^verbatim>\<open>src/src\<close> and
  \<^verbatim>\<open>src/include\<close>, function by function, and proves what makes it correct.

  \<^bold>\<open>The parts of the program and their theories.\<close>

  \<^item> \<^verbatim>\<open>utils.cpp\<close>, \<^verbatim>\<open>utils.hpp\<close>: \<open>Utils\<close>. \<open>parse_cidr\<close>, \<open>format_ip\<close>, \<open>resolve_hostname\<close>, \<open>safe_batch_size\<close>,
    the constants, and \<open>fetch\<close> with its walk \<open>find_interface\<close> for \<^verbatim>\<open>NetworkInterface::fetch\<close>.
  \<^item> \<^verbatim>\<open>ping_scanner.cpp\<close>, \<^verbatim>\<open>ping_scanner.hpp\<close>: the members and tables in \<open>Ping_State\<close>, the wire format in
    \<open>Ping_Packet\<close>, filling, preparing and sending a batch in \<open>Ping_Send\<close>, receiving and reaping in
    \<open>Ping_Recv\<close>, the loop of \<open>run\<close> in \<open>Ping_Run\<close>, socket, constructor and destructor in \<open>Ping_Socket\<close>. The
    members that do not change after construction are the record \<open>ping_scanner\<close>, those that do, with the
    local variables of \<^verbatim>\<open>run\<close> that the code hands on by reference, are \<open>ping_state\<close>.
  \<^item> \<^verbatim>\<open>tcp_scanner.cpp\<close>, \<^verbatim>\<open>tcp_scanner.hpp\<close>: \<open>Tcp_Scanner\<close> has the code, \<open>Tcp_Run\<close> its lemmas. What both
    scanners share (probe tables, elapsed time, the search for a slot) is in \<open>Scanner_Base\<close>.
  \<^item> \<^verbatim>\<open>arp_table.cpp\<close>, \<^verbatim>\<open>arp_table.hpp\<close>: \<open>Arp_Table\<close>. The netlink parser reads a byte buffer at offsets, and
    a read outside the buffer is a fault. \<open>Arp_Messages\<close> has the specification: messages as the kernel writes
    them.
  \<^item> \<^verbatim>\<open>main.cpp\<close>: \<open>Cli\<close>. \<open>parse_opt\<close>, the modes, the texts that are printed, and \<open>run_main\<close>.
  \<^item> The C library: \<open>Cstdlib\<close> (\<^verbatim>\<open>strtol\<close>, \<^verbatim>\<open>strtoul\<close>, \<^verbatim>\<open>printf\<close> of numbers), \<open>Inet_Text\<close> (the interface of
    \<^verbatim>\<open>inet_pton\<close> and \<^verbatim>\<open>inet_ntop\<close>), \<open>Bytes\<close> (byte order, buffers, the interface \<open>codec\<close> of a wire format).
    The generic lemmas are in \<open>Net_Prelude\<close>.
  \<^item> The kernel: \<open>Os\<close>. It is a parameter, a record of functions over an unknown environment, together with a
    ledger of descriptors that counts opens and closes. \<open>Loopback\<close> is a small concrete kernel on which the
    properties are shown not to be vacuous.

  \<^bold>\<open>How they interact.\<close> \<open>run_main\<close> parses the options with \<open>parse_opt\<close> and chooses a mode; a scan parses its
  target with \<open>parse_cidr\<close>, and \<open>ping_session\<close> and \<open>tcp_session\<close> construct a scanner (which asks \<open>fetch\<close> for the
  local network, whose two special addresses are left out), run it and destroy it. A round of a ping
  scan is \<open>send_batch\<close>, \<open>receive_responses\<close>, \<open>reap_timed_out_probes\<close>; a round of a TCP scan is
  \<open>initiate_connections\<close>, \<open>poll_connections\<close>, \<open>tcp_reap_timed_out_probes\<close>. What a scanner reports, the
  callback prints.

  \<^bold>\<open>Conventions.\<close> Machine integers are words, \<^verbatim>\<open>size_t\<close> is a natural number with its wrap-around written
  out where the code can reach it, \<^verbatim>\<open>int64_t\<close> and \<^verbatim>\<open>int\<close> arithmetic is checked and its overflow is the fault
  \<open>Signed_overflow\<close>. A call ends as \<open>fault + result\<close>, or \<open>None\<close> when a loop does not end (\<open>outcome\<close>). The loops
  over the kernel's answers are \<open>partial_function (option)\<close>: no fuel is used. \<^verbatim>\<open>double\<close> is the type \<open>rat\<close>, so
  that round-trip times are exact; rounding is modelled in \<open>fixed_string\<close> where they are printed.

  \<^bold>\<open>What the lemmas show.\<close>

  \<^item> \<open>Address_Properties\<close>: \<open>parse_cidr\<close> against plain arithmetic, its bounds and its boundary case, the round
    trip of an address through its text, and the local interface.
  \<^item> \<open>Ping_Properties\<close>: the tables stay in agreement (\<open>table_inv\<close>, \<open>buf_inv\<close>, \<open>ping_inv\<close>), sequence numbers
    do not repeat, a batch holds the requests of the hosts that are due, giving up a batch leaves no trace,
    a reply is recorded once with its exact time, a sweep takes out what is overdue.
  \<^item> \<open>Ping_Scan_Properties\<close>: the run refines an abstract scan (\<open>scan_step\<close>) and so accounts for every host,
    reports each at most once, and fails only as documented; descriptors are balanced.
  \<^item> \<open>Tcp_Properties\<close>: the same for connections, with the sockets in the ledger as a multiset (\<open>tcp_inv\<close>).
  \<^item> \<open>Arp_Properties\<close>: a well-formed dump is read back, whatever is read is valid, the two renderings agree.
  \<^item> This theory: the program as a whole.

  \<^bold>\<open>Not modelled.\<close> The option table and help texts of \<^verbatim>\<open>main.cpp\<close>, which argp reads (argp is the sequence of
  its calls of \<open>parse_opt\<close>, or an exit); \<^verbatim>\<open>argv\<close> before that; the text printed before a fault; allocation
  failure; the tests and the build files. The receive buffers of \<open>receive_responses\<close> are not bytes but the
  messages that the kernel puts into them.
\<close>

section \<open>The program\<close>





text \<open>
  C39. A number given in decimal: \<^verbatim>\<open>-l\<close>, \<^verbatim>\<open>-c\<close>, \<^verbatim>\<open>-s\<close> and \<^verbatim>\<open>-r\<close> take it as it is, the port
  keeps its low 16 bits, and the timeout its low 32 bits.
\<close>

theorem number_options:
  assumes "n < 2 ^ 64"
  shows "parse_opt (Opt CHR ''l'') (dec_string n) k config = Parsed (config\<lparr>opt_payload_len := n\<rparr>) \<and>
    parse_opt (Opt CHR ''c'') (dec_string n) k config = Parsed (config\<lparr>opt_max_probes := n\<rparr>) \<and>
    parse_opt (Opt CHR ''s'') (dec_string n) k config = Parsed (config\<lparr>opt_send_batch := n\<rparr>) \<and>
    parse_opt (Opt CHR ''r'') (dec_string n) k config = Parsed (config\<lparr>opt_recv_batch := n\<rparr>) \<and>
    parse_opt (Opt CHR ''p'') (dec_string n) k config = Parsed (config\<lparr>opt_port := word_of_nat (n mod 2 ^ 16)\<rparr>) \<and>
    parse_opt (Opt CHR ''t'') (dec_string n) k config = Parsed (config\<lparr>opt_timeout_ms := word_of_nat (n mod 2 ^ 32)\<rparr>)"
proof -
  have s: "strtoul10 (dec_string n) = word_of_nat n" using assms by (simp add: strtoul10_dec ULONG_MAX_def)
  have u: "unat (word_of_nat n :: u64) = n" using assms by (simp add: unat_of_nat)
  have "(ucast (word_of_nat n :: u64) :: u16) = word_of_nat (n mod 2 ^ 16)"
    "(ucast (word_of_nat n :: u64) :: u32) = word_of_nat (n mod 2 ^ 32)"
    using u by (simp_all add: word_unat_eq_iff unat_of_nat unsigned_ucast_eq take_bit_nat_def)
  then show ?thesis by (simp add: parse_opt_def s u)
qed

theorem number_options_witness:
  "parse_opt (Opt CHR ''l'') (dec_string 65979) 0 Config_init = Parsed (Config_init\<lparr>opt_payload_len := 65979\<rparr>) \<and>
    parse_opt (Opt CHR ''c'') (dec_string 65979) 0 Config_init = Parsed (Config_init\<lparr>opt_max_probes := 65979\<rparr>) \<and>
    parse_opt (Opt CHR ''s'') (dec_string 65979) 0 Config_init = Parsed (Config_init\<lparr>opt_send_batch := 65979\<rparr>) \<and>
    parse_opt (Opt CHR ''r'') (dec_string 65979) 0 Config_init = Parsed (Config_init\<lparr>opt_recv_batch := 65979\<rparr>) \<and>
    parse_opt (Opt CHR ''p'') (dec_string 65979) 0 Config_init = Parsed (Config_init\<lparr>opt_port := 443\<rparr>) \<and>
    parse_opt (Opt CHR ''t'') (dec_string 65979) 0 Config_init = Parsed (Config_init\<lparr>opt_timeout_ms := 65979\<rparr>)"
  using number_options [of 65979 0 Config_init] by simp

end
